theory Spec2Isabelle
  imports Complex_Main "HOL-Library.AList" "HOL-Library.Log_Nat"
begin

section \<open>Stream connection: reconnect with backoff (ws/manager.ts)\<close>

text \<open>
  The fields of \<open>WebSocketManager\<close> that the close handler and \<open>scheduleReconnect\<close>
  read and write. The three limits are private fields with fixed initial values
  (20, 1000 ms, 30000 ms) which no method assigns; they are constants here.
  \<open>Math.pow(2, n)\<close> is exact on the attempt counts that can occur (below 20).
\<close>

record WebSocketManager =
  reconnectAttempts :: nat
  isShuttingDown :: bool

definition maxReconnectAttempts :: nat where
  "maxReconnectAttempts = 20"

definition baseReconnectDelay :: nat where
  "baseReconnectDelay = 1000"

definition maxReconnectDelay :: nat where
  "maxReconnectDelay = 30000"

definition newWebSocketManager :: WebSocketManager where
  "newWebSocketManager = \<lparr>reconnectAttempts = 0, isShuttingDown = False\<rparr>"

text \<open>
  \<open>scheduleReconnect\<close> returns the new state and the delay handed to \<open>setTimeout\<close>;
  \<open>None\<close> is the early return that schedules nothing.
\<close>

definition scheduleReconnect :: "WebSocketManager \<Rightarrow> WebSocketManager \<times> nat option" where
  "scheduleReconnect m =
     (if reconnectAttempts m \<ge> maxReconnectAttempts then (m, None)
      else
        let delay = min (baseReconnectDelay * 2 ^ reconnectAttempts m) maxReconnectDelay
        in (m\<lparr>reconnectAttempts := reconnectAttempts m + 1\<rparr>, Some delay))"

text \<open>The socket's \<open>close\<close> handler: reconnect unless a shutdown is in progress.\<close>

definition onClose :: "WebSocketManager \<Rightarrow> WebSocketManager \<times> nat option" where
  "onClose m = (if \<not> isShuttingDown m then scheduleReconnect m else (m, None))"

text \<open>The socket's \<open>open\<close> handler resets the attempt counter.\<close>

definition onOpen :: "WebSocketManager \<Rightarrow> WebSocketManager" where
  "onOpen m = m\<lparr>reconnectAttempts := 0\<rparr>"

definition disconnect :: "WebSocketManager \<Rightarrow> WebSocketManager" where
  "disconnect m = m\<lparr>isShuttingDown := True\<rparr>"

text \<open>\<open>closeEvents n m\<close>: the state after \<open>n\<close> close events in a row (no open in between).\<close>

fun closeEvents :: "nat \<Rightarrow> WebSocketManager \<Rightarrow> WebSocketManager" where
  "closeEvents 0 m = m"
| "closeEvents (Suc n) m = closeEvents n (fst (onClose m))"

section \<open>Position tracker (orders/tracker.ts)\<close>

text \<open>
  In the tracker and the strategy engine JavaScript numbers are modelled as exact
  reals: prices, levels and sizes are \<open>real\<close>, product identifiers \<open>int\<close>, timestamps
  \<open>nat\<close>. The rounding error of double arithmetic is modelled for the level
  calculator only, further below.
\<close>

datatype OrderSide = long | short

datatype LevelStatus = pending | filled | tp_hit | sl_hit | cancelled

text \<open>The parameter type \<open>'tp_hit' | 'sl_hit'\<close> of \<open>markExit\<close>.\<close>

datatype ExitType = exit_tp_hit | exit_sl_hit

fun exitStatus :: "ExitType \<Rightarrow> LevelStatus" where
  "exitStatus exit_tp_hit = tp_hit"
| "exitStatus exit_sl_hit = sl_hit"

text \<open>
  A position's id is the template string \<open>productId-side-level\<close>. The string is
  determined by the three values and distinct values give distinct strings, so the key
  is modelled as the triple itself; it is never empty, so the test \<open>!posId\<close> fails
  exactly when the lookup found nothing.
\<close>

type_synonym posId = "int \<times> OrderSide \<times> real"

record LevelPosition =
  id_pos :: posId
  productId :: int
  level :: real
  side :: OrderSide
  size_pos :: real
  entryOrderDigest :: "string option"
  tpOrderDigest :: "string option"
  slOrderDigest :: "string option"
  status :: LevelStatus
  fillPrice :: "real option"
  createdAt :: nat
  updatedAt :: nat

text \<open>
  \<open>positions\<close> is a JavaScript \<open>Map\<close> that the code iterates: an association list in
  insertion order (\<open>AList.update\<close> overwrites an existing key in place and appends a new
  one, as \<open>Map.set\<close> does). Each \<open>LevelPosition\<close> object is owned by its entry: the
  in-place assignments of the source are updates of the entry's value.
  \<open>digestToPositionId\<close> is only read by key, written and deleted from: a finite map.
\<close>

record PositionTracker =
  positions :: "(posId \<times> LevelPosition) list"
  digestToPositionId :: "string \<rightharpoonup> posId"

definition emptyTracker :: PositionTracker where
  "emptyTracker = \<lparr>positions = [], digestToPositionId = Map.empty\<rparr>"

text \<open>
  Every operation that calls \<open>Date.now()\<close> takes the clock reading \<open>now\<close> as an
  argument. Operations return their result together with the tracker after the call.
\<close>

definition createPosition ::
  "int \<Rightarrow> real \<Rightarrow> OrderSide \<Rightarrow> real \<Rightarrow> string \<Rightarrow> nat \<Rightarrow> PositionTracker
     \<Rightarrow> LevelPosition \<times> PositionTracker" where
  "createPosition pId lvl sd sz entryDigest now t =
     (let i = (pId, sd, lvl);
          position = \<lparr>id_pos = i, productId = pId, level = lvl, side = sd, size_pos = sz,
                      entryOrderDigest = Some entryDigest, tpOrderDigest = None,
                      slOrderDigest = None, status = pending, fillPrice = None,
                      createdAt = now, updatedAt = now\<rparr>
      in (position,
          t\<lparr>positions := AList.update i position (positions t),
            digestToPositionId := (digestToPositionId t)(entryDigest \<mapsto> i)\<rparr>))"

definition markFilled ::
  "string \<Rightarrow> real \<Rightarrow> string \<Rightarrow> string \<Rightarrow> nat \<Rightarrow> PositionTracker
     \<Rightarrow> LevelPosition option \<times> PositionTracker" where
  "markFilled entryDigest fillPx tpDigest slDigest now t =
     (case digestToPositionId t entryDigest of
        None \<Rightarrow> (None, t)
      | Some posId \<Rightarrow>
          (case map_of (positions t) posId of
             None \<Rightarrow> (None, t)
           | Some position \<Rightarrow>
               let position' = position\<lparr>status := filled, fillPrice := Some fillPx,
                                 tpOrderDigest := Some tpDigest, slOrderDigest := Some slDigest,
                                 updatedAt := now\<rparr>
               in (Some position',
                   t\<lparr>positions := AList.update posId position' (positions t),
                     digestToPositionId :=
                       (digestToPositionId t)(tpDigest \<mapsto> posId, slDigest \<mapsto> posId)\<rparr>)))"

text \<open>
  A digest field is \<open>string | null\<close> and the source tests it by truthiness: \<open>null\<close> and
  the empty string both count as absent.
\<close>

fun truthy :: "string option \<Rightarrow> bool" where
  "truthy None = False"
| "truthy (Some d) = (d \<noteq> [])"

definition markExit ::
  "string \<Rightarrow> ExitType \<Rightarrow> nat \<Rightarrow> PositionTracker
     \<Rightarrow> (LevelPosition \<times> string option) option \<times> PositionTracker" where
  "markExit digest exitType now t =
     (case digestToPositionId t digest of
        None \<Rightarrow> (None, t)
      | Some posId \<Rightarrow>
          (case map_of (positions t) posId of
             None \<Rightarrow> (None, t)
           | Some position \<Rightarrow>
               let position' = position\<lparr>status := exitStatus exitType, updatedAt := now\<rparr>;
                   pairedDigest =
                     (if exitType = exit_tp_hit \<and> truthy (slOrderDigest position')
                        then slOrderDigest position'
                      else if exitType = exit_sl_hit \<and> truthy (tpOrderDigest position')
                        then tpOrderDigest position'
                      else None)
               in (Some (position', pairedDigest),
                   t\<lparr>positions := AList.update posId position' (positions t)\<rparr>)))"

definition markCancelled ::
  "string \<Rightarrow> nat \<Rightarrow> PositionTracker \<Rightarrow> LevelPosition option \<times> PositionTracker" where
  "markCancelled digest now t =
     (case digestToPositionId t digest of
        None \<Rightarrow> (None, t)
      | Some posId \<Rightarrow>
          (case map_of (positions t) posId of
             None \<Rightarrow> (None, t)
           | Some position \<Rightarrow>
               if status position = pending then
                 let position' = position\<lparr>status := cancelled, updatedAt := now\<rparr>
                 in (Some position', t\<lparr>positions := AList.update posId position' (positions t)\<rparr>)
               else (Some position, t)))"

definition getByEntryDigest :: "PositionTracker \<Rightarrow> string \<Rightarrow> LevelPosition option" where
  "getByEntryDigest t digest =
     (case digestToPositionId t digest of
        None \<Rightarrow> None
      | Some posId \<Rightarrow> map_of (positions t) posId)"

definition getByDigest :: "PositionTracker \<Rightarrow> string \<Rightarrow> LevelPosition option" where
  "getByDigest t digest =
     (case digestToPositionId t digest of
        None \<Rightarrow> None
      | Some posId \<Rightarrow> map_of (positions t) posId)"

definition hasActivePosition :: "PositionTracker \<Rightarrow> int \<Rightarrow> OrderSide \<Rightarrow> real \<Rightarrow> bool" where
  "hasActivePosition t pId sd lvl =
     (case map_of (positions t) (pId, sd, lvl) of
        None \<Rightarrow> False
      | Some pos \<Rightarrow> status pos = pending \<or> status pos = filled)"

text \<open>
  \<open>cleanup\<close> walks the entries of \<open>positions\<close>. Deleting the entry under the cursor
  leaves the rest of a \<open>Map\<close> iteration as it was, so the loop is a fold over the
  entries present at the start. \<open>deleteDigest\<close> is
  \<open>if (pos.x) this.digestToPositionId.delete(pos.x)\<close>.
\<close>

fun deleteDigest :: "string option \<Rightarrow> (string \<rightharpoonup> posId) \<Rightarrow> (string \<rightharpoonup> posId)" where
  "deleteDigest None m = m"
| "deleteDigest (Some d) m = (if d \<noteq> [] then m(d := None) else m)"

definition cleanupEntry :: "PositionTracker \<Rightarrow> posId \<times> LevelPosition \<Rightarrow> PositionTracker" where
  "cleanupEntry t e =
     (case e of (i, pos) \<Rightarrow>
        if status pos = tp_hit \<or> status pos = sl_hit \<or> status pos = cancelled then
          t\<lparr>digestToPositionId :=
              deleteDigest (slOrderDigest pos)
                (deleteDigest (tpOrderDigest pos)
                  (deleteDigest (entryOrderDigest pos) (digestToPositionId t))),
            positions := AList.delete i (positions t)\<rparr>
        else t)"

definition cleanup :: "PositionTracker \<Rightarrow> PositionTracker" where
  "cleanup t = foldl cleanupEntry t (positions t)"

definition getActivePositions :: "PositionTracker \<Rightarrow> LevelPosition list" where
  "getActivePositions t =
     filter (\<lambda>p. status p = pending \<or> status p = filled) (map snd (positions t))"

text \<open>The calls a client of the tracker can make, and a run of them.\<close>

datatype TrackerOp =
    CreatePosition int real OrderSide real string nat
  | MarkFilled string real string string nat
  | MarkExit string ExitType nat
  | MarkCancelled string nat
  | Cleanup

fun applyOp :: "PositionTracker \<Rightarrow> TrackerOp \<Rightarrow> PositionTracker" where
  "applyOp t (CreatePosition pId lvl sd sz d now) = snd (createPosition pId lvl sd sz d now t)"
| "applyOp t (MarkFilled d px tp sl now) = snd (markFilled d px tp sl now t)"
| "applyOp t (MarkExit d e now) = snd (markExit d e now t)"
| "applyOp t (MarkCancelled d now) = snd (markCancelled d now t)"
| "applyOp t Cleanup = cleanup t"

definition runOps :: "TrackerOp list \<Rightarrow> PositionTracker" where
  "runOps ops = foldl applyOp emptyTracker ops"

subsection \<open>Vocabulary for the tracker's properties\<close>

text \<open>The lifecycle graph: \<open>pending\<close> to \<open>filled\<close> or \<open>cancelled\<close>, \<open>filled\<close> to an exit.\<close>

fun transition :: "LevelStatus \<Rightarrow> LevelStatus \<Rightarrow> bool" where
  "transition pending s' = (s' = filled \<or> s' = cancelled)"
| "transition filled s' = (s' = tp_hit \<or> s' = sl_hit)"
| "transition tp_hit s' = False"
| "transition sl_hit s' = False"
| "transition cancelled s' = False"

definition terminal :: "LevelStatus \<Rightarrow> bool" where
  "terminal s = (s = tp_hit \<or> s = sl_hit \<or> s = cancelled)"

text \<open>
  Conditions on a call, used as hypotheses below. \<open>fillGuarded t op\<close>: a \<open>markFilled\<close>
  call is made only when its digest resolves to a \<open>pending\<close> position.
  \<open>exitGuarded t op\<close>: a \<open>markExit\<close> call is made
  only when its digest resolves to a \<open>filled\<close> position. Calls whose digest resolves to
  no position, and all other calls, are unrestricted.
\<close>

fun fillGuarded :: "PositionTracker \<Rightarrow> TrackerOp \<Rightarrow> bool" where
  "fillGuarded t (MarkFilled d px tp sl now) =
     (case getByDigest t d of None \<Rightarrow> True | Some p \<Rightarrow> status p = pending)"
| "fillGuarded t (MarkExit d e now) = True"
| "fillGuarded t (CreatePosition pId lvl sd sz d now) = True"
| "fillGuarded t (MarkCancelled d now) = True"
| "fillGuarded t Cleanup = True"

fun exitGuarded :: "PositionTracker \<Rightarrow> TrackerOp \<Rightarrow> bool" where
  "exitGuarded t (MarkExit d e now) =
     (case getByDigest t d of None \<Rightarrow> True | Some p \<Rightarrow> status p = filled)"
| "exitGuarded t (MarkFilled d px tp sl now) = True"
| "exitGuarded t (CreatePosition pId lvl sd sz d now) = True"
| "exitGuarded t (MarkCancelled d now) = True"
| "exitGuarded t Cleanup = True"

definition guardedOp :: "PositionTracker \<Rightarrow> TrackerOp \<Rightarrow> bool" where
  "guardedOp t op = (fillGuarded t op \<and> exitGuarded t op)"

fun guardedRun :: "PositionTracker \<Rightarrow> TrackerOp list \<Rightarrow> bool" where
  "guardedRun t [] = True"
| "guardedRun t (op # ops) = (guardedOp t op \<and> guardedRun (applyOp t op) ops)"

fun fillGuardedRun :: "PositionTracker \<Rightarrow> TrackerOp list \<Rightarrow> bool" where
  "fillGuardedRun t [] = True"
| "fillGuardedRun t (op # ops) = (fillGuarded t op \<and> fillGuardedRun (applyOp t op) ops)"

text \<open>
  \<open>createsAt op i\<close>: the call builds a new position object for slot \<open>i\<close> (replacing
  whatever the slot held).
\<close>

fun createsAt :: "TrackerOp \<Rightarrow> posId \<Rightarrow> bool" where
  "createsAt (CreatePosition pId lvl sd sz d now) i = (i = (pId, sd, lvl))"
| "createsAt (MarkFilled d px tp sl now) i = False"
| "createsAt (MarkExit d e now) i = False"
| "createsAt (MarkCancelled d now) i = False"
| "createsAt Cleanup i = False"

fun noCreationAt :: "TrackerOp list \<Rightarrow> posId \<Rightarrow> bool" where
  "noCreationAt [] i = True"
| "noCreationAt (op # ops) i = (\<not> createsAt op i \<and> noCreationAt ops i)"

text \<open>The digests that \<open>cleanup\<close> deletes for one position: its non-empty ones.\<close>

fun digestList :: "string option \<Rightarrow> string list" where
  "digestList None = []"
| "digestList (Some d) = (if d \<noteq> [] then [d] else [])"

definition positionDigests :: "LevelPosition \<Rightarrow> string list" where
  "positionDigests pos =
     digestList (entryOrderDigest pos) @ digestList (tpOrderDigest pos)
       @ digestList (slOrderDigest pos)"

fun terminalDigests :: "(posId \<times> LevelPosition) list \<Rightarrow> string list" where
  "terminalDigests [] = []"
| "terminalDigests ((i, pos) # es) =
     (if terminal (status pos) then positionDigests pos else []) @ terminalDigests es"

text \<open>
  The registry as a \<open>Map\<close> keyed by slot: keys are unique, and every entry's key is
  the slot written in the position it holds.
\<close>

definition registryInv :: "PositionTracker \<Rightarrow> bool" where
  "registryInv t = (distinct (map fst (positions t)) \<and>
     (\<forall>(k, p) \<in> set (positions t). k = (productId p, side p, level p)))"

section \<open>Strategy engine: stream handlers (strategy/engine.ts)\<close>

text \<open>
  A JavaScript number is a finite value, \<open>NaN\<close> or an infinity. A stream field is typed
  \<open>string | number\<close>.
\<close>

datatype jsnumber = Finite real | NaN | PosInfinity | NegInfinity

datatype streamValue = NumberValue jsnumber | StringValue string

text \<open>
  \<open>normalizeStreamPrice\<close>. The built-in \<open>parseFloat\<close> is a parameter: any function from
  strings to numbers. \<open>Number.isFinite\<close> holds of the finite values only.
\<close>

definition normalizeStreamPrice :: "(string \<Rightarrow> jsnumber) \<Rightarrow> streamValue \<Rightarrow> real" where
  "normalizeStreamPrice parseFloat v =
     (let parsed = (case v of NumberValue n \<Rightarrow> n | StringValue s \<Rightarrow> parseFloat s)
      in case parsed of
           Finite x \<Rightarrow> (if \<bar>x\<bar> > 10 ^ 12 then x / 10 ^ 18 else x)
         | NaN \<Rightarrow> 0
         | PosInfinity \<Rightarrow> 0
         | NegInfinity \<Rightarrow> 0)"

record BestBidOfferEvent =
  product_id :: int
  bid_price :: streamValue
  ask_price :: streamValue

record FillEvent =
  order_digest :: string
  price :: streamValue
  filled_qty :: streamValue
  remaining_qty :: streamValue

text \<open>The configuration values the fill handler reads.\<close>

record BotConfig =
  tpPercent :: real
  slPercent :: real

text \<open>
  The order gateway (orders/manager.ts) answers every call with a result and never
  throws. What the exchange answers is outside the program, so the answers are inputs
  of a handler run: \<open>cancelOrder\<close> gives the answer to each cancellation, and
  \<open>tpResult\<close> and \<open>slResult\<close> are the results of the one \<open>placeTakeProfitOrder\<close> call
  and the one \<open>placeStopLossOrder\<close> call that \<open>onFill\<close> awaits together.
\<close>

record OrderResult =
  digest :: string
  success :: bool

record Gateway =
  cancelOrder :: "string \<Rightarrow> int \<Rightarrow> bool"
  tpResult :: OrderResult
  slResult :: OrderResult

text \<open>
  What a handler does besides changing the tracker: its calls to the gateway, in order,
  the \<open>Entry filled!\<close> record with the normalized event fields, the warning for an
  opposite entry that could not be cancelled, and the error report of a failed
  take-profit/stop-loss pair (with the two success flags and \<open>digest || null\<close> for each
  leg). Other log lines are left out.
\<close>

datatype EngineAction =
    LogEntryFilled posId OrderSide real real real
  | CallCancelOrder string int
  | LogCancelFailed int OrderSide real string
  | CallPlaceTakeProfit int real real real bool
  | CallPlaceStopLoss int real real real bool
  | LogTpSlFailed posId bool bool "string option" "string option"

definition orNull :: "string \<Rightarrow> string option" where
  "orNull d = (if d \<noteq> [] then Some d else None)"

text \<open>
  \<open>onBestBidOffer\<close> on the price cache \<open>latestPrices\<close>.
\<close>

definition onBestBidOffer ::
  "(string \<Rightarrow> jsnumber) \<Rightarrow> (int \<rightharpoonup> real) \<Rightarrow> BestBidOfferEvent \<Rightarrow> (int \<rightharpoonup> real)" where
  "onBestBidOffer parseFloat latestPrices event =
     (let bid = normalizeStreamPrice parseFloat (bid_price event);
          ask = normalizeStreamPrice parseFloat (ask_price event);
          mid = (bid + ask) / 2
      in latestPrices(product_id event \<mapsto> mid))"

text \<open>
  \<open>cancelOppositePendingEntries\<close>: the candidates are collected first; the loop then
  cancels each at the gateway and marks it cancelled when the gateway says so. All
  clock readings of one handler run are the one value \<open>now\<close>.
\<close>

definition cancelCandidate ::
  "Gateway \<Rightarrow> nat \<Rightarrow> PositionTracker \<times> EngineAction list \<Rightarrow> LevelPosition
     \<Rightarrow> PositionTracker \<times> EngineAction list" where
  "cancelCandidate om now acc pos =
     (case acc of (t, acts) \<Rightarrow>
        (case entryOrderDigest pos of
           None \<Rightarrow> (t, acts)
         | Some d \<Rightarrow>
             if d = [] then (t, acts)
             else if cancelOrder om d (productId pos)
               then (snd (markCancelled d now t), acts @ [CallCancelOrder d (productId pos)])
             else (t, acts @ [CallCancelOrder d (productId pos),
                              LogCancelFailed (productId pos) (side pos) (level pos) d])))"

definition cancelOppositePendingEntries ::
  "Gateway \<Rightarrow> nat \<Rightarrow> PositionTracker \<Rightarrow> int \<Rightarrow> OrderSide \<Rightarrow> string
     \<Rightarrow> PositionTracker \<times> EngineAction list" where
  "cancelOppositePendingEntries om now t pId filledSide filledEntryDigest =
     (let oppositeSide = (if filledSide = long then short else long);
          candidates = filter (\<lambda>p. productId p = pId \<and> status p = pending
                                  \<and> side p = oppositeSide \<and> truthy (entryOrderDigest p)
                                  \<and> entryOrderDigest p \<noteq> Some filledEntryDigest)
                         (getActivePositions t)
      in foldl (cancelCandidate om now) (t, []) candidates)"

text \<open>
  \<open>onFill\<close>. The position found at the start is read again after the cancellation pass
  only in fields that no operation assigns (\<open>id\<close>, \<open>productId\<close>, \<open>size\<close>). The two
  placements are issued together (\<open>Promise.all\<close>): both calls are always made, and the
  handler goes on when both results are in.
\<close>

definition onFill ::
  "(string \<Rightarrow> jsnumber) \<Rightarrow> Gateway \<Rightarrow> BotConfig \<Rightarrow> nat \<Rightarrow> PositionTracker \<Rightarrow> FillEvent
     \<Rightarrow> PositionTracker \<times> EngineAction list" where
  "onFill parseFloat om config now t event =
     (let d = order_digest event in
      case getByEntryDigest t d of
        None \<Rightarrow> (t, [])
      | Some position \<Rightarrow>
          if status position \<noteq> pending then (t, [])
          else
            let fillPx = normalizeStreamPrice parseFloat (price event);
                isLong = (side position = long);
                entryFilled = LogEntryFilled (id_pos position) (side position) fillPx
                                (normalizeStreamPrice parseFloat (filled_qty event))
                                (normalizeStreamPrice parseFloat (remaining_qty event));
                (t1, cancelActs) =
                   cancelOppositePendingEntries om now t (productId position) (side position) d;
                tpOffset = fillPx * (tpPercent config / 100);
                slOffset = fillPx * (slPercent config / 100);
                (tpTriggerPrice, tpLimitPrice, slTriggerPrice, slLimitPrice, exitAmount) =
                   (if isLong then
                      (fillPx + tpOffset, (fillPx + tpOffset) * 0.995,
                       fillPx - slOffset, (fillPx - slOffset) * 0.995,
                       - size_pos position)
                    else
                      (fillPx - tpOffset, (fillPx - tpOffset) * 1.005,
                       fillPx + slOffset, (fillPx + slOffset) * 1.005,
                       size_pos position));
                placeActs =
                  [CallPlaceTakeProfit (productId position)
                     tpTriggerPrice tpLimitPrice exitAmount isLong,
                   CallPlaceStopLoss (productId position)
                     slTriggerPrice slLimitPrice exitAmount isLong]
            in if success (tpResult om) \<and> success (slResult om) then
                 (snd (markFilled d fillPx (digest (tpResult om)) (digest (slResult om)) now t1),
                  entryFilled # cancelActs @ placeActs)
               else
                 (t1,
                  entryFilled # cancelActs @ placeActs @
                    [LogTpSlFailed (id_pos position)
                       (success (tpResult om)) (success (slResult om))
                       (orNull (digest (tpResult om))) (orNull (digest (slResult om)))]))"

text \<open>Reading the gateway calls back out of a handler's actions.\<close>

fun isPlaceTakeProfit :: "EngineAction \<Rightarrow> bool" where
  "isPlaceTakeProfit (CallPlaceTakeProfit _ _ _ _ _) = True"
| "isPlaceTakeProfit _ = False"

fun isPlaceStopLoss :: "EngineAction \<Rightarrow> bool" where
  "isPlaceStopLoss (CallPlaceStopLoss _ _ _ _ _) = True"
| "isPlaceStopLoss _ = False"

fun isTpSlFailure :: "EngineAction \<Rightarrow> bool" where
  "isTpSlFailure (LogTpSlFailed _ _ _ _ _) = True"
| "isTpSlFailure _ = False"

text \<open>
  A position as \<open>markCancelled\<close> leaves it when it acts, and the condition that an entry
  digest is the only reference indexed to its slot.
\<close>

definition markedCancelled :: "nat \<Rightarrow> LevelPosition \<Rightarrow> LevelPosition" where
  "markedCancelled now p = p\<lparr>status := cancelled, updatedAt := now\<rparr>"

definition soleReference :: "PositionTracker \<Rightarrow> string \<Rightarrow> bool" where
  "soleReference t d =
     (\<forall>d'. digestToPositionId t d' = digestToPositionId t d \<longrightarrow> d' = d)"


section \<open>Entry point: the position-change subscription (index.ts)\<close>

text \<open>
  The callback that \<open>main\<close> registers for \<open>position_change\<close> events does not go
  through the strategy engine: it writes one log record with the event's product id,
  amount and reason as they arrived. \<open>amount\<close> is a stream quantity field.
\<close>

record PositionChangeEvent =
  product_id_pc :: int
  amount :: streamValue
  reason :: string

datatype LogRecord = LogPositionChange int streamValue string

definition onPositionChange :: "PositionChangeEvent \<Rightarrow> LogRecord" where
  "onPositionChange event =
     LogPositionChange (product_id_pc event) (amount event) (reason event)"

section \<open>Double arithmetic\<close>

text \<open>
  The level calculator computes on JavaScript numbers, which are IEEE 754 binary64
  values: \<open>Finite x\<close> with \<open>x\<close> a real that has a 53-bit significand and an exponent in
  range, \<open>NaN\<close>, and the two infinities. The two zeros are identified (no operation
  below tells them apart). \<open>fl x\<close> is the double nearest to the real \<open>x\<close>, a tie going to
  the even significand and a result of magnitude \<open>2^1024\<close> or more to an infinity: with
  \<open>2^k \<le> \<bar>x\<bar> < 2^(k+1)\<close> the doubles near \<open>x\<close> are the multiples of \<open>2^(k-52)\<close>, or of
  \<open>2^(-1074)\<close> in the subnormal range.
\<close>

definition pow2 :: "int \<Rightarrow> real" where
  "pow2 e = (if 0 \<le> e then 2 ^ nat e else 1 / 2 ^ nat (- e))"

text \<open>\<open>ilog2 a\<close> is the \<open>k\<close> with \<open>2^k \<le> a < 2^(k+1)\<close>, for \<open>a > 0\<close>.\<close>

definition ilog2 :: "real \<Rightarrow> int" where
  "ilog2 a = (if 1 \<le> a then bitlen \<lfloor>a\<rfloor> - 1 else - bitlen (\<lceil>1 / a\<rceil> - 1))"

definition roundHalfEven :: "real \<Rightarrow> int" where
  "roundHalfEven q =
     (let f = \<lfloor>q\<rfloor> in
      if q - of_int f < 1 / 2 then f
      else if q - of_int f > 1 / 2 then f + 1
      else if even f then f else f + 1)"

definition fl :: "real \<Rightarrow> jsnumber" where
  "fl x =
     (if x = 0 then Finite 0
      else
        let a = \<bar>x\<bar>;
            e = max (ilog2 a - 52) (- 1074);
            y = of_int (roundHalfEven (a / pow2 e)) * pow2 e
        in if y \<ge> 2 ^ 1024 then (if x < 0 then NegInfinity else PosInfinity)
           else Finite (if x < 0 then - y else y))"

text \<open>
  The operators \<open>+\<close>, \<open>-\<close>, \<open>*\<close>, \<open>/\<close> and \<open><=\<close> on numbers, and \<open>Math.round\<close>. An
  operation on finite values is the exact operation followed by \<open>fl\<close>. \<open>Math.round\<close>
  gives the integer \<open>\<lfloor>x + 1/2\<rfloor>\<close> exactly (it is a double whenever \<open>x\<close> is) and leaves
  \<open>NaN\<close> and the infinities alone. A zero divisor is read as \<open>+0\<close>; the calculator
  divides by the literals 3 and 10000 only.
\<close>

fun fneg :: "jsnumber \<Rightarrow> jsnumber" where
  "fneg (Finite x) = Finite (- x)"
| "fneg NaN = NaN"
| "fneg PosInfinity = NegInfinity"
| "fneg NegInfinity = PosInfinity"

fun fadd :: "jsnumber \<Rightarrow> jsnumber \<Rightarrow> jsnumber" where
  "fadd (Finite x) (Finite y) = fl (x + y)"
| "fadd (Finite x) NaN = NaN"
| "fadd (Finite x) PosInfinity = PosInfinity"
| "fadd (Finite x) NegInfinity = NegInfinity"
| "fadd NaN b = NaN"
| "fadd PosInfinity (Finite y) = PosInfinity"
| "fadd PosInfinity NaN = NaN"
| "fadd PosInfinity PosInfinity = PosInfinity"
| "fadd PosInfinity NegInfinity = NaN"
| "fadd NegInfinity (Finite y) = NegInfinity"
| "fadd NegInfinity NaN = NaN"
| "fadd NegInfinity PosInfinity = NaN"
| "fadd NegInfinity NegInfinity = NegInfinity"

definition fsub :: "jsnumber \<Rightarrow> jsnumber \<Rightarrow> jsnumber" where
  "fsub a b = fadd a (fneg b)"

fun fmul :: "jsnumber \<Rightarrow> jsnumber \<Rightarrow> jsnumber" where
  "fmul (Finite x) (Finite y) = fl (x * y)"
| "fmul (Finite x) NaN = NaN"
| "fmul (Finite x) PosInfinity =
     (if x = 0 then NaN else if 0 < x then PosInfinity else NegInfinity)"
| "fmul (Finite x) NegInfinity =
     (if x = 0 then NaN else if 0 < x then NegInfinity else PosInfinity)"
| "fmul NaN b = NaN"
| "fmul PosInfinity (Finite y) =
     (if y = 0 then NaN else if 0 < y then PosInfinity else NegInfinity)"
| "fmul PosInfinity NaN = NaN"
| "fmul PosInfinity PosInfinity = PosInfinity"
| "fmul PosInfinity NegInfinity = NegInfinity"
| "fmul NegInfinity (Finite y) =
     (if y = 0 then NaN else if 0 < y then NegInfinity else PosInfinity)"
| "fmul NegInfinity NaN = NaN"
| "fmul NegInfinity PosInfinity = NegInfinity"
| "fmul NegInfinity NegInfinity = PosInfinity"

fun fdiv :: "jsnumber \<Rightarrow> jsnumber \<Rightarrow> jsnumber" where
  "fdiv (Finite x) (Finite y) =
     (if y = 0 then (if x = 0 then NaN else if 0 < x then PosInfinity else NegInfinity)
      else fl (x / y))"
| "fdiv (Finite x) NaN = NaN"
| "fdiv (Finite x) PosInfinity = Finite 0"
| "fdiv (Finite x) NegInfinity = Finite 0"
| "fdiv NaN b = NaN"
| "fdiv PosInfinity (Finite y) = (if 0 \<le> y then PosInfinity else NegInfinity)"
| "fdiv PosInfinity b = NaN"
| "fdiv NegInfinity (Finite y) = (if 0 \<le> y then NegInfinity else PosInfinity)"
| "fdiv NegInfinity b = NaN"

fun jsLe :: "jsnumber \<Rightarrow> jsnumber \<Rightarrow> bool" where
  "jsLe (Finite x) (Finite y) = (x \<le> y)"
| "jsLe (Finite x) PosInfinity = True"
| "jsLe (Finite x) NegInfinity = False"
| "jsLe (Finite x) NaN = False"
| "jsLe NaN b = False"
| "jsLe PosInfinity b = (b = PosInfinity)"
| "jsLe NegInfinity b = (b \<noteq> NaN)"

fun jsRound :: "jsnumber \<Rightarrow> jsnumber" where
  "jsRound (Finite x) = Finite (of_int \<lfloor>x + 1 / 2\<rfloor>)"
| "jsRound NaN = NaN"
| "jsRound PosInfinity = PosInfinity"
| "jsRound NegInfinity = NegInfinity"

section \<open>Level calculator (strategy/dynamicLevels.ts)\<close>

text \<open>
  One element of the array \<open>calculatePivotLevels\<close> returns. The field names carry a
  suffix because \<open>price\<close> and \<open>side\<close> are fields of other records above.
\<close>

record PivotLevel =
  price_lvl :: jsnumber
  side_lvl :: OrderSide
  pivotType :: string

text \<open>
  The template strings \<open>R${i}\<close> and \<open>S${i}\<close> print the loop counter. The counter starts
  at 1 and is incremented, so it is a positive integer, at most \<open>2^53\<close>; such a number
  prints as its decimal digits, which is all \<open>showNumber\<close> is used for.
\<close>

definition digitChar :: "nat \<Rightarrow> char" where
  "digitChar n = ''0123456789'' ! (n mod 10)"

fun showNat :: "nat \<Rightarrow> string" where
  "showNat n = (if n < 10 then [digitChar n] else showNat (n div 10) @ [digitChar n])"

fun showNumber :: "jsnumber \<Rightarrow> string" where
  "showNumber (Finite x) = showNat (nat \<lfloor>x\<rfloor>)"
| "showNumber NaN = ''NaN''"
| "showNumber PosInfinity = ''Infinity''"
| "showNumber NegInfinity = ''-Infinity''"

text \<open>
  The two \<open>for\<close> loops, with the counter \<open>i\<close> and the array built so far as
  arguments. The level counts are numbers like any other. A loop whose condition never
  fails does not return: the value is \<open>None\<close>. The array is unbounded here; the
  language bounds an array's length by \<open>2^32 - 1\<close>, and a run that would need more is
  outside the model. The source's \<open>range\<close> is \<open>range'\<close> here.
\<close>

partial_function (option) resistanceLoop ::
  "jsnumber \<Rightarrow> jsnumber \<Rightarrow> jsnumber \<Rightarrow> jsnumber \<Rightarrow> PivotLevel list \<Rightarrow> PivotLevel list option" where
  "resistanceLoop pivot range' rLevelsCount i levels =
     (if jsLe i rLevelsCount then
        let price = fadd pivot (fmul i range')
        in resistanceLoop pivot range' rLevelsCount (fadd i (Finite 1))
             (levels @ [\<lparr>price_lvl = fdiv (jsRound (fmul price (Finite 10000))) (Finite 10000),
                         side_lvl = short,
                         pivotType = CHR ''R'' # showNumber i\<rparr>])
      else Some levels)"

partial_function (option) supportLoop ::
  "jsnumber \<Rightarrow> jsnumber \<Rightarrow> jsnumber \<Rightarrow> jsnumber \<Rightarrow> PivotLevel list \<Rightarrow> PivotLevel list option" where
  "supportLoop pivot range' sLevelsCount i levels =
     (if jsLe i sLevelsCount then
        let price = fsub pivot (fmul i range')
        in supportLoop pivot range' sLevelsCount (fadd i (Finite 1))
             (levels @ [\<lparr>price_lvl = fdiv (jsRound (fmul price (Finite 10000))) (Finite 10000),
                         side_lvl = long,
                         pivotType = CHR ''S'' # showNumber i\<rparr>])
      else Some levels)"

definition calculatePivotLevels ::
  "jsnumber \<Rightarrow> jsnumber \<Rightarrow> jsnumber \<Rightarrow> jsnumber \<Rightarrow> jsnumber \<Rightarrow> PivotLevel list option" where
  "calculatePivotLevels high low close rLevelsCount sLevelsCount =
     (let pivot = fdiv (fadd (fadd high low) close) (Finite 3);
          range' = fsub high low;
          levels0 = []
      in case resistanceLoop pivot range' rLevelsCount (Finite 1) levels0 of
           None \<Rightarrow> None
         | Some levels1 \<Rightarrow> supportLoop pivot range' sLevelsCount (Finite 1) levels1)"

subsection \<open>The level set in closed form\<close>

text \<open>
  The number of turns a loop takes for a count in range, the price of a level from the
  unrounded price, and the \<open>i\<close>-th resistance and support level.
\<close>

fun levelCount :: "jsnumber \<Rightarrow> nat" where
  "levelCount (Finite x) = nat \<lfloor>x\<rfloor>"
| "levelCount NaN = 0"
| "levelCount PosInfinity = 0"
| "levelCount NegInfinity = 0"

definition countsInRange :: "jsnumber \<Rightarrow> jsnumber \<Rightarrow> bool" where
  "countsInRange r s =
     (r \<noteq> PosInfinity \<and> s \<noteq> PosInfinity \<and> levelCount r + levelCount s < 2 ^ 32)"

definition roundedPrice :: "jsnumber \<Rightarrow> jsnumber" where
  "roundedPrice x = fdiv (jsRound (fmul x (Finite 10000))) (Finite 10000)"

definition pivotOf :: "jsnumber \<Rightarrow> jsnumber \<Rightarrow> jsnumber \<Rightarrow> jsnumber" where
  "pivotOf high low close = fdiv (fadd (fadd high low) close) (Finite 3)"

definition resistanceLevel :: "jsnumber \<Rightarrow> jsnumber \<Rightarrow> nat \<Rightarrow> PivotLevel" where
  "resistanceLevel pivot range' i =
     \<lparr>price_lvl = roundedPrice (fadd pivot (fmul (Finite (of_nat i)) range')),
      side_lvl = short, pivotType = CHR ''R'' # showNat i\<rparr>"

definition supportLevel :: "jsnumber \<Rightarrow> jsnumber \<Rightarrow> nat \<Rightarrow> PivotLevel" where
  "supportLevel pivot range' i =
     \<lparr>price_lvl = roundedPrice (fsub pivot (fmul (Finite (of_nat i)) range')),
      side_lvl = long, pivotType = CHR ''S'' # showNat i\<rparr>"

subsection \<open>The level set as the specification words it\<close>

text \<open>
  In exact arithmetic: rounding to 4 decimal places, and the levels \<open>P + i R\<close> for
  \<open>i = 1..rCount\<close> (short) followed by \<open>P - i R\<close> for \<open>i = 1..sCount\<close> (long), with
  \<open>P = (H + L + C) / 3\<close> and \<open>R = H - L\<close>.
\<close>

definition roundTo4 :: "real \<Rightarrow> real" where
  "roundTo4 x = of_int (round (x * 10000)) / 10000"

definition specPivotLevels :: "real \<Rightarrow> real \<Rightarrow> real \<Rightarrow> int \<Rightarrow> int \<Rightarrow> (real \<times> OrderSide) list" where
  "specPivotLevels H L C rCount sCount =
     map (\<lambda>i. (roundTo4 ((H + L + C) / 3 + of_int i * (H - L)), short)) [1..rCount]
     @ map (\<lambda>i. (roundTo4 ((H + L + C) / 3 - of_int i * (H - L)), long)) [1..sCount]"

section \<open>Stream connection: the backoff schedule\<close>

lemma closeEvents_shutdown:
  "isShuttingDown (closeEvents n m) = isShuttingDown m"
  by (induction n arbitrary: m) (auto simp: onClose_def scheduleReconnect_def Let_def)

lemma closeEvents_attempts:
  "\<not> isShuttingDown m \<Longrightarrow>
   reconnectAttempts (closeEvents n m) =
     (if reconnectAttempts m \<ge> maxReconnectAttempts then reconnectAttempts m
      else min (reconnectAttempts m + n) maxReconnectAttempts)"
proof (induction n arbitrary: m)
  case 0
  then show ?case by simp
next
  case (Suc n)
  let ?m' = "fst (onClose m)"
  have sd: "\<not> isShuttingDown ?m'"
    using Suc.prems by (simp add: onClose_def scheduleReconnect_def Let_def)
  show ?case
    using Suc.IH [OF sd] Suc.prems
    by (auto simp: onClose_def scheduleReconnect_def Let_def min_def)
qed

text \<open>
  C9. Starting from a connection whose attempt counter is 0 (a fresh manager, or one
  whose socket has opened: \<open>onOpen\<close> resets the counter) and with no shutdown in
  progress, the \<open>N\<close>th close event in a row schedules a reconnect after
  \<open>min (1000 * 2 ^ (N - 1)) 30000\<close> ms for \<open>N \<le> 20\<close>, and schedules nothing once 20
  attempts have been made. After \<open>disconnect\<close> a close event schedules nothing.
\<close>

theorem C9_reconnect_backoff:
  assumes "reconnectAttempts m = 0" and "\<not> isShuttingDown m" and "1 \<le> N"
  shows "snd (onClose (closeEvents (N - 1) m)) =
           (if N \<le> 20 then Some (min (1000 * 2 ^ (N - 1)) 30000) else None)
       \<and> reconnectAttempts (onOpen m') = 0
       \<and> isShuttingDown (onOpen m') = isShuttingDown m'
       \<and> snd (onClose (disconnect m')) = None"
proof -
  let ?m = "closeEvents (N - 1) m"
  have a: "reconnectAttempts ?m = min (N - 1) 20"
    using closeEvents_attempts [OF assms(2), of "N - 1"] assms(1)
    by (simp add: maxReconnectAttempts_def)
  have s: "\<not> isShuttingDown ?m"
    using assms(2) by (simp add: closeEvents_shutdown)
  have main: "snd (onClose ?m) =
           (if N \<le> 20 then Some (min (1000 * 2 ^ (N - 1)) 30000) else None)"
  proof (cases "N \<le> 20")
    case True
    then have "reconnectAttempts ?m = N - 1" using a assms(3) by simp
    then show ?thesis
      using True s assms(3)
      by (simp add: onClose_def scheduleReconnect_def Let_def maxReconnectAttempts_def
          baseReconnectDelay_def maxReconnectDelay_def)
  next
    case False
    then have "reconnectAttempts ?m = 20" using a by simp
    then show ?thesis
      using False s
      by (simp add: onClose_def scheduleReconnect_def maxReconnectAttempts_def)
  qed
  show ?thesis
    using main by (simp add: onOpen_def disconnect_def onClose_def)
qed

theorem C9_reconnect_backoff_witness:
  "reconnectAttempts newWebSocketManager = 0
   \<and> \<not> isShuttingDown newWebSocketManager
   \<and> snd (onClose (closeEvents (1 - 1) newWebSocketManager)) = Some 1000
   \<and> snd (onClose (closeEvents (3 - 1) newWebSocketManager)) = Some 4000
   \<and> snd (onClose (closeEvents (6 - 1) newWebSocketManager)) = Some 30000
   \<and> snd (onClose (closeEvents (20 - 1) newWebSocketManager)) = Some 30000
   \<and> snd (onClose (closeEvents (21 - 1) newWebSocketManager)) = None"
  using C9_reconnect_backoff [of newWebSocketManager 1]
    C9_reconnect_backoff [of newWebSocketManager 3]
    C9_reconnect_backoff [of newWebSocketManager 6]
    C9_reconnect_backoff [of newWebSocketManager 20]
    C9_reconnect_backoff [of newWebSocketManager 21]
  by (simp add: newWebSocketManager_def)

section \<open>Position tracker: what the operations do to the registry\<close>

subsection \<open>The purge loop in closed form\<close>

lemma cleanup_positions_fold:
  "positions (foldl cleanupEntry t es) =
     foldl (\<lambda>ps e. if terminal (status (snd e)) then AList.delete (fst e) ps else ps) (positions t) es"
  by (induction es arbitrary: t) (auto simp: cleanupEntry_def terminal_def split: prod.splits)

lemma fold_delete_filter:
  "foldl (\<lambda>ps e. if terminal (status (snd e)) then AList.delete (fst e) ps else ps) ps es =
     filter (\<lambda>kv. fst kv \<notin> fst ` {e \<in> set es. terminal (status (snd e))}) ps"
proof (induction es arbitrary: ps)
  case Nil
  then show ?case by simp
next
  case (Cons e es)
  show ?case
  proof (cases "terminal (status (snd e))")
    case True
    have "filter (\<lambda>kv. fst kv \<notin> fst ` {x \<in> set es. terminal (status (snd x))})
            (AList.delete (fst e) ps)
          = filter (\<lambda>kv. fst kv \<notin> fst ` {x \<in> set (e # es). terminal (status (snd x))}) ps"
      unfolding AList.delete_eq filter_filter
      using True by (intro filter_cong) (force+)
    then show ?thesis using True by (simp add: Cons.IH)
  next
    case False
    have "fst ` {x \<in> set (e # es). terminal (status (snd x))}
          = fst ` {x \<in> set es. terminal (status (snd x))}"
      using False by auto
    then show ?thesis using False by (simp add: Cons.IH)
  qed
qed

lemma cleanup_positions:
  assumes "distinct (map fst (positions t))"
  shows "positions (cleanup t) = filter (\<lambda>kv. \<not> terminal (status (snd kv))) (positions t)"
proof -
  have "\<And>kv. kv \<in> set (positions t) \<Longrightarrow>
          (fst kv \<notin> fst ` {e \<in> set (positions t). terminal (status (snd e))})
            = (\<not> terminal (status (snd kv)))"
  proof -
    fix kv assume kv: "kv \<in> set (positions t)"
    show "(fst kv \<notin> fst ` {e \<in> set (positions t). terminal (status (snd e))})
            = (\<not> terminal (status (snd kv)))"
    proof
      assume "fst kv \<notin> fst ` {e \<in> set (positions t). terminal (status (snd e))}"
      then show "\<not> terminal (status (snd kv))" using kv by blast
    next
      assume nt: "\<not> terminal (status (snd kv))"
      show "fst kv \<notin> fst ` {e \<in> set (positions t). terminal (status (snd e))}"
      proof
        assume "fst kv \<in> fst ` {e \<in> set (positions t). terminal (status (snd e))}"
        then obtain e where e: "e \<in> set (positions t)" "terminal (status (snd e))" "fst e = fst kv"
          by auto
        have "snd e = snd kv"
          using eq_key_imp_eq_value [OF assms, of "fst kv" "snd e" "snd kv"] e kv
          by (metis prod.collapse)
        then show False using e nt by simp
      qed
    qed
  qed
  then show ?thesis
    unfolding cleanup_def cleanup_positions_fold fold_delete_filter
    by (intro filter_cong) auto
qed

lemma map_of_filter_key:
  "map_of (filter (\<lambda>kv. Q (fst kv)) ps) i = (if Q i then map_of ps i else None)"
  by (induction ps) auto

lemma cleanup_map_of_weak:
  "map_of (positions (cleanup t)) i = None \<or> map_of (positions (cleanup t)) i = map_of (positions t) i"
  unfolding cleanup_def cleanup_positions_fold fold_delete_filter
  using map_of_filter_key
    [of "\<lambda>k. k \<notin> fst ` {e \<in> set (positions t). terminal (status (snd e))}" "positions t" i]
  by (simp split: if_splits)

lemma cleanup_digests_fold:
  "digestToPositionId (foldl cleanupEntry t es) d =
     (if d \<in> set (terminalDigests es) then None else digestToPositionId t d)"
proof (induction es arbitrary: t)
  case Nil
  then show ?case by simp
next
  case (Cons e es)
  obtain i pos where e: "e = (i, pos)" by (cases e)
  have del: "\<And>x m. deleteDigest x m d = (if d \<in> set (digestList x) then None else m d)"
    subgoal for x m by (cases x) auto
    done
  have hd: "digestToPositionId (cleanupEntry t e) d =
        (if d \<in> set (if terminal (status pos) then positionDigests pos else []) then None
         else digestToPositionId t d)"
    by (auto simp: e cleanupEntry_def terminal_def positionDigests_def del)
  show ?case
    unfolding foldl_Cons Cons.IH hd by (auto simp: e)
qed

subsection \<open>One call of the tracker, seen from one slot\<close>

lemma noCreate_preserves_None:
  assumes "\<not> createsAt op i" "map_of (positions t) i = None"
  shows "map_of (positions (applyOp t op)) i = None"
proof (cases op)
  case Cleanup
  then show ?thesis using cleanup_map_of_weak [of t i] assms by auto
qed (use assms in \<open>auto simp: createPosition_def markFilled_def markExit_def markCancelled_def
      Let_def update_conv' split: option.splits if_splits\<close>)

lemma step_status:
  assumes "guardedOp t op" "\<not> createsAt op i" "map_of (positions t) i = Some p"
    "map_of (positions (applyOp t op)) i = Some p'"
  shows "status p' = status p \<or> transition (status p) (status p')"
proof (cases op)
  case Cleanup
  then show ?thesis using cleanup_map_of_weak [of t i] assms by auto
next
  case (MarkExit d e now)
  then show ?thesis using assms
    by (cases e) (auto simp: guardedOp_def markExit_def getByDigest_def Let_def update_conv'
        split: option.splits if_splits)
qed (use assms in \<open>auto simp: guardedOp_def createPosition_def markFilled_def markCancelled_def
      getByDigest_def Let_def update_conv' split: option.splits if_splits\<close>)

lemma step_fillPrice:
  assumes "fillGuarded t op" "\<not> createsAt op i" "map_of (positions t) i = Some p"
    "map_of (positions (applyOp t op)) i = Some p'"
  shows "fillPrice p' = fillPrice p \<or> (status p = pending \<and> status p' = filled)"
proof (cases op)
  case Cleanup
  then show ?thesis using cleanup_map_of_weak [of t i] assms by auto
qed (use assms in \<open>auto simp: createPosition_def markFilled_def markCancelled_def markExit_def
      getByDigest_def Let_def update_conv' split: option.splits if_splits\<close>)

text \<open>No call but \<open>createPosition\<close> ever writes \<open>pending\<close>.\<close>

lemma step_not_pending:
  assumes "\<not> createsAt op i" "map_of (positions t) i = Some p" "status p \<noteq> pending"
    "map_of (positions (applyOp t op)) i = Some p'"
  shows "status p' \<noteq> pending"
proof (cases op)
  case Cleanup
  then show ?thesis using cleanup_map_of_weak [of t i] assms by auto
next
  case (MarkExit d e now)
  then show ?thesis using assms
    by (cases e) (auto simp: markExit_def Let_def update_conv' split: option.splits if_splits)
qed (use assms in \<open>auto simp: createPosition_def markFilled_def markCancelled_def
      Let_def update_conv' split: option.splits if_splits\<close>)

lemma transition_not_pending: "transition s s' \<Longrightarrow> s' \<noteq> pending"
  by (cases s) auto

lemma transition_terminal: "terminal s \<Longrightarrow> \<not> transition s s'"
  by (cases s) (auto simp: terminal_def)

lemma run_preserves_None:
  "noCreationAt ops i \<Longrightarrow> map_of (positions t) i = None \<Longrightarrow>
   map_of (positions (foldl applyOp t ops)) i = None"
  by (induction ops arbitrary: t) (auto simp: noCreate_preserves_None)

lemma run_terminal:
  assumes "guardedRun t ops" "noCreationAt ops i" "map_of (positions t) i = Some p"
    "terminal (status p)" "map_of (positions (foldl applyOp t ops)) i = Some p'"
  shows "status p' = status p"
  using assms
proof (induction ops arbitrary: t p)
  case Nil
  then show ?case by simp
next
  case (Cons op ops)
  show ?case
  proof (cases "map_of (positions (applyOp t op)) i")
    case None
    have "map_of (positions (foldl applyOp (applyOp t op) ops)) i = None"
      using Cons.prems(2) None by (simp add: run_preserves_None)
    then show ?thesis using Cons.prems(5) by simp
  next
    case (Some p1)
    have "status p1 = status p"
      using step_status [OF _ _ Cons.prems(3) Some] Cons.prems transition_terminal by auto
    then show ?thesis
      using Cons.IH [OF _ _ Some] Cons.prems by auto
  qed
qed

lemma run_fillPrice:
  assumes "fillGuardedRun t ops" "noCreationAt ops i" "map_of (positions t) i = Some p"
    "status p \<noteq> pending" "map_of (positions (foldl applyOp t ops)) i = Some p'"
  shows "fillPrice p' = fillPrice p"
  using assms
proof (induction ops arbitrary: t p)
  case Nil
  then show ?case by simp
next
  case (Cons op ops)
  show ?case
  proof (cases "map_of (positions (applyOp t op)) i")
    case None
    have "map_of (positions (foldl applyOp (applyOp t op) ops)) i = None"
      using Cons.prems(2) None by (simp add: run_preserves_None)
    then show ?thesis using Cons.prems(5) by simp
  next
    case (Some p1)
    have g: "fillGuarded t op" "\<not> createsAt op i" using Cons.prems by auto
    have f: "fillPrice p1 = fillPrice p"
      using step_fillPrice [OF g Cons.prems(3) Some] Cons.prems(4) by auto
    have "status p1 \<noteq> pending"
      using step_not_pending [OF g(2) Cons.prems(3,4) Some] .
    then show ?thesis
      using Cons.IH [OF _ _ Some] Cons.prems f by auto
  qed
qed

subsection \<open>The registry stays keyed by slot\<close>

lemma set_update_subset:
  "set (AList.update k v ps) \<subseteq> insert (k, v) (set ps)"
  by (induction ps) auto

lemma registryInv_empty: "registryInv emptyTracker"
  by (simp add: registryInv_def emptyTracker_def)

lemma registryInv_update:
  assumes "registryInv t" "k = (productId v, side v, level v)"
  shows "registryInv (t\<lparr>positions := AList.update k v (positions t)\<rparr>)"
  using assms set_update_subset [of k v "positions t"]
  by (auto simp: registryInv_def distinct_update)

lemma registryInv_mutate:
  assumes "registryInv t" "map_of (positions t) k = Some p"
    "productId v = productId p" "side v = side p" "level v = level p"
  shows "registryInv (t\<lparr>positions := AList.update k v (positions t)\<rparr>)"
proof (rule registryInv_update [OF assms(1)])
  have "(k, p) \<in> set (positions t)" using assms(2) by (rule map_of_SomeD)
  then show "k = (productId v, side v, level v)"
    using assms by (auto simp: registryInv_def)
qed

lemma registryInv_digests [simp]:
  "registryInv (t\<lparr>digestToPositionId := m\<rparr>) = registryInv t"
  by (simp add: registryInv_def)

lemma registryInv_applyOp:
  assumes "registryInv t"
  shows "registryInv (applyOp t op)"
proof (cases op)
  case Cleanup
  have "positions (cleanup t) = filter (\<lambda>kv. \<not> terminal (status (snd kv))) (positions t)"
    using assms by (simp add: cleanup_positions registryInv_def)
  then show ?thesis using assms Cleanup
    by (auto simp: registryInv_def distinct_map_filter)
next
  case (CreatePosition pId lvl sd sz d now)
  let ?v = "\<lparr>id_pos = (pId, sd, lvl), productId = pId, level = lvl, side = sd,
              size_pos = sz, entryOrderDigest = Some d, tpOrderDigest = None,
              slOrderDigest = None, status = pending, fillPrice = None,
              createdAt = now, updatedAt = now\<rparr>"
  have "registryInv (t\<lparr>positions := AList.update (pId, sd, lvl) ?v (positions t)\<rparr>)"
    by (rule registryInv_update [OF assms]) simp
  then show ?thesis using CreatePosition
    by (simp add: createPosition_def Let_def)
next
  case (MarkFilled d px tp sl now)
  show ?thesis
    using MarkFilled assms
    by (auto simp: markFilled_def Let_def intro!: registryInv_mutate split: option.splits)
next
  case (MarkExit d e now)
  show ?thesis
    using MarkExit assms
    by (auto simp: markExit_def Let_def intro!: registryInv_mutate split: option.splits)
next
  case (MarkCancelled d now)
  show ?thesis
    using MarkCancelled assms
    by (auto simp: markCancelled_def Let_def intro!: registryInv_mutate split: option.splits)
qed

lemma registryInv_foldl: "registryInv t \<Longrightarrow> registryInv (foldl applyOp t ops)"
  by (induction ops arbitrary: t) (auto simp: registryInv_applyOp)

lemma registryInv_runOps: "registryInv (runOps ops)"
  by (simp add: runOps_def registryInv_foldl registryInv_empty)

lemma filter_same_key_le1:
  assumes "distinct (map fst ps)" "\<And>kv. kv \<in> set ps \<Longrightarrow> Q (snd kv) \<Longrightarrow> fst kv = c"
  shows "length (filter Q (map snd ps)) \<le> 1"
  using assms
proof (induction ps)
  case Nil
  then show ?case by simp
next
  case (Cons a ps)
  show ?case
  proof (cases "Q (snd a)")
    case True
    then have a: "fst a = c" using Cons.prems(2) by simp
    have "filter Q (map snd ps) = []"
    proof (rule ccontr)
      assume "filter Q (map snd ps) \<noteq> []"
      then obtain v where "v \<in> set (filter Q (map snd ps))" by (cases "filter Q (map snd ps)") auto
      then obtain kv where "kv \<in> set ps" "Q (snd kv)" by auto
      then have "fst kv = c" "fst kv \<in> set (map fst ps)" using Cons.prems(2) [of kv] by auto
      then show False using Cons.prems(1) a by auto
    qed
    then show ?thesis using True by simp
  next
    case False
    then show ?thesis using Cons by simp
  qed
qed

lemma cleanup_digests:
  "digestToPositionId (cleanup t) d =
     (if d \<in> set (terminalDigests (positions t)) then None else digestToPositionId t d)"
  by (simp add: cleanup_def cleanup_digests_fold)

lemma active_filter_nonterminal:
  "filter (\<lambda>p. status p = pending \<or> status p = filled)
     (map snd (filter (\<lambda>kv. \<not> terminal (status (snd kv))) ps))
   = filter (\<lambda>p. status p = pending \<or> status p = filled) (map snd ps)"
  by (induction ps) (auto simp: terminal_def)

lemma hasActive_iff:
  assumes "registryInv t"
  shows "hasActivePosition t pId sd lvl \<longleftrightarrow>
     (\<exists>p \<in> set (getActivePositions t). productId p = pId \<and> side p = sd \<and> level p = lvl)"
proof
  assume "hasActivePosition t pId sd lvl"
  then obtain pos where pos: "map_of (positions t) (pId, sd, lvl) = Some pos"
    "status pos = pending \<or> status pos = filled"
    by (auto simp: hasActivePosition_def split: option.splits)
  have mem: "((pId, sd, lvl), pos) \<in> set (positions t)" using pos(1) by (rule map_of_SomeD)
  then have "(pId, sd, lvl) = (productId pos, side pos, level pos)"
    using assms by (auto simp: registryInv_def)
  moreover have "pos \<in> set (getActivePositions t)"
    using mem pos(2) by (force simp: getActivePositions_def)
  ultimately show "\<exists>p \<in> set (getActivePositions t). productId p = pId \<and> side p = sd \<and> level p = lvl"
    by auto
next
  assume "\<exists>p \<in> set (getActivePositions t). productId p = pId \<and> side p = sd \<and> level p = lvl"
  then obtain k p where p: "(k, p) \<in> set (positions t)" "status p = pending \<or> status p = filled"
    "productId p = pId" "side p = sd" "level p = lvl"
    by (auto simp: getActivePositions_def)
  have "k = (pId, sd, lvl)" using assms p by (auto simp: registryInv_def)
  moreover have "map_of (positions t) k = Some p"
    using assms p(1) by (simp add: registryInv_def)
  ultimately show "hasActivePosition t pId sd lvl"
    using p(2) by (auto simp: hasActivePosition_def)
qed

subsection \<open>The fill price and the status\<close>

text \<open>
  \<open>markFilled\<close> applied to a digest that resolves to a position assigns the call's
  fill price; a step that takes a position from \<open>pending\<close> to \<open>filled\<close> is such a
  call; and in every state reached from the empty tracker a \<open>pending\<close> position has
  no fill price and a \<open>filled\<close> one has one.
\<close>

lemma markFilled_assigns:
  assumes "getByDigest t d = Some q"
  shows "getByDigest (applyOp t (MarkFilled d px tp sl n)) d =
           Some (q\<lparr>status := filled, fillPrice := Some px, tpOrderDigest := Some tp,
                   slOrderDigest := Some sl, updatedAt := n\<rparr>)"
  using assms
  by (auto simp: getByDigest_def markFilled_def Let_def update_conv' split: option.splits)

lemma step_fill_assigns:
  assumes "\<not> createsAt op i" "map_of (positions t) i = Some p"
    "map_of (positions (applyOp t op)) i = Some p'" "status p = pending" "status p' = filled"
  shows "\<exists>d px tp sl n. op = MarkFilled d px tp sl n \<and> fillPrice p' = Some px"
proof (cases op)
  case Cleanup
  then show ?thesis using cleanup_map_of_weak [of t i] assms by auto
next
  case (MarkExit d e now)
  then show ?thesis using assms
    by (cases e) (auto simp: markExit_def Let_def update_conv' split: option.splits if_splits)
qed (use assms in \<open>auto simp: createPosition_def markFilled_def markCancelled_def
      Let_def update_conv' split: option.splits if_splits\<close>)

lemma step_fillPrice_status:
  assumes "\<And>k q. map_of (positions t) k = Some q \<Longrightarrow>
             (status q = pending \<longrightarrow> fillPrice q = None) \<and> (status q = filled \<longrightarrow> fillPrice q \<noteq> None)"
    "map_of (positions (applyOp t op)) i = Some p'"
  shows "(status p' = pending \<longrightarrow> fillPrice p' = None) \<and> (status p' = filled \<longrightarrow> fillPrice p' \<noteq> None)"
proof (cases op)
  case Cleanup
  then show ?thesis using cleanup_map_of_weak [of t i] assms by auto
next
  case (MarkExit d e now)
  then show ?thesis using assms
    by (cases e) (auto simp: markExit_def Let_def update_conv' split: option.splits if_splits)
qed (use assms in \<open>auto simp: createPosition_def markFilled_def markCancelled_def
      Let_def update_conv' split: option.splits if_splits\<close>)

lemma run_fillPrice_status:
  assumes "\<And>k q. map_of (positions t) k = Some q \<Longrightarrow>
             (status q = pending \<longrightarrow> fillPrice q = None) \<and> (status q = filled \<longrightarrow> fillPrice q \<noteq> None)"
    "map_of (positions (foldl applyOp t ops)) i = Some p'"
  shows "(status p' = pending \<longrightarrow> fillPrice p' = None) \<and> (status p' = filled \<longrightarrow> fillPrice p' \<noteq> None)"
  using assms
proof (induction ops arbitrary: t)
  case Nil
  then show ?case by simp
next
  case (Cons op ops)
  show ?case
  proof (rule Cons.IH [of "applyOp t op"])
    fix k q assume "map_of (positions (applyOp t op)) k = Some q"
    then show "(status q = pending \<longrightarrow> fillPrice q = None) \<and> (status q = filled \<longrightarrow> fillPrice q \<noteq> None)"
      using step_fillPrice_status [of t op k q] Cons.prems(1) by blast
  next
    show "map_of (positions (foldl applyOp (applyOp t op) ops)) i = Some p'"
      using Cons.prems(2) by simp
  qed
qed

lemma runOps_fillPrice_status:
  assumes "map_of (positions (runOps ops)) i = Some q"
  shows "(status q = pending \<longrightarrow> fillPrice q = None) \<and> (status q = filled \<longrightarrow> fillPrice q \<noteq> None)"
  using run_fillPrice_status [of emptyTracker ops i q] assms
  by (simp add: runOps_def emptyTracker_def)

section \<open>Position tracker: lifecycle of a status\<close>

text \<open>
  C1 (as amended). A position lives in its slot from the \<open>createPosition\<close> that built it
  until the next \<open>createPosition\<close> for the same slot or the \<open>cleanup\<close> that removes
  it. While it lives there: in any call that respects the client's status discipline
  (\<open>markFilled\<close> on a \<open>pending\<close> position, \<open>markExit\<close> on a \<open>filled\<close> one; every
  other call unrestricted) its status stays as it is or moves along one edge of
  pending to filled, pending to cancelled, filled to \<open>tp_hit\<close>, filled to \<open>sl_hit\<close>; once it
  is cancelled, \<open>tp_hit\<close> or \<open>sl_hit\<close>, no run of such calls changes it; and a new position
  starts \<open>pending\<close>.
\<close>

theorem C1_status_transitions:
  "(guardedOp t op \<longrightarrow> \<not> createsAt op i \<longrightarrow> map_of (positions t) i = Some p \<longrightarrow>
      map_of (positions (applyOp t op)) i = Some p' \<longrightarrow>
      status p' = status p \<or> transition (status p) (status p'))
   \<and> (guardedRun t ops \<longrightarrow> noCreationAt ops i \<longrightarrow> map_of (positions t) i = Some p \<longrightarrow>
      terminal (status p) \<longrightarrow> map_of (positions (foldl applyOp t ops)) i = Some p'' \<longrightarrow>
      status p'' = status p)
   \<and> status (fst (createPosition pId lvl sd sz d now t)) = pending"
  using step_status [of t op i p p'] run_terminal [of t ops i p p'']
  by (simp add: createPosition_def Let_def)

theorem C1_status_transitions_witness:
  "guardedOp (runOps [CreatePosition 4 100 long 1 ''e'' 0, MarkFilled ''e'' 100 ''tp'' ''sl'' 1])
      (MarkExit ''tp'' exit_tp_hit 2)
   \<and> \<not> createsAt (MarkExit ''tp'' exit_tp_hit 2) (4, long, 100)
   \<and> map_option status (map_of (positions
        (runOps [CreatePosition 4 100 long 1 ''e'' 0, MarkFilled ''e'' 100 ''tp'' ''sl'' 1]))
        (4, long, 100)) = Some filled
   \<and> map_option status (map_of (positions
        (applyOp (runOps [CreatePosition 4 100 long 1 ''e'' 0, MarkFilled ''e'' 100 ''tp'' ''sl'' 1])
           (MarkExit ''tp'' exit_tp_hit 2)))
        (4, long, 100)) = Some tp_hit
   \<and> transition filled tp_hit
   \<and> guardedRun (runOps [CreatePosition 4 100 long 1 ''e'' 0, MarkCancelled ''e'' 1])
        [MarkCancelled ''e'' 2, MarkFilled ''x'' 7 ''a'' ''b'' 3]
   \<and> noCreationAt [MarkCancelled ''e'' 2, MarkFilled ''x'' 7 ''a'' ''b'' 3] (4, long, 100)
   \<and> terminal cancelled
   \<and> map_option status (map_of (positions
        (foldl applyOp (runOps [CreatePosition 4 100 long 1 ''e'' 0, MarkCancelled ''e'' 1])
           [MarkCancelled ''e'' 2, MarkFilled ''x'' 7 ''a'' ''b'' 3]))
        (4, long, 100)) = Some cancelled"
  using C1_status_transitions
    [of "runOps [CreatePosition 4 100 long 1 ''e'' 0, MarkFilled ''e'' 100 ''tp'' ''sl'' 1]"
        "MarkExit ''tp'' exit_tp_hit 2" "(4, long, 100)"
        "\<lparr>id_pos = (4, long, 100), productId = 4, level = 100, side = long,
          size_pos = 1, entryOrderDigest = Some ''e'', tpOrderDigest = Some ''tp'',
          slOrderDigest = Some ''sl'', status = filled, fillPrice = Some 100,
          createdAt = 0, updatedAt = 1\<rparr>"
        "\<lparr>id_pos = (4, long, 100), productId = 4, level = 100, side = long,
          size_pos = 1, entryOrderDigest = Some ''e'', tpOrderDigest = Some ''tp'',
          slOrderDigest = Some ''sl'', status = tp_hit, fillPrice = Some 100,
          createdAt = 0, updatedAt = 2\<rparr>"]
    C1_status_transitions
    [of "runOps [CreatePosition 4 100 long 1 ''e'' 0, MarkCancelled ''e'' 1]" _ "(4, long, 100)"
        "\<lparr>id_pos = (4, long, 100), productId = 4, level = 100, side = long,
          size_pos = 1, entryOrderDigest = Some ''e'', tpOrderDigest = None,
          slOrderDigest = None, status = cancelled, fillPrice = None,
          createdAt = 0, updatedAt = 1\<rparr>" _
        "[MarkCancelled ''e'' 2, MarkFilled ''x'' 7 ''a'' ''b'' 3]"
        "\<lparr>id_pos = (4, long, 100), productId = 4, level = 100, side = long,
          size_pos = 1, entryOrderDigest = Some ''e'', tpOrderDigest = None,
          slOrderDigest = None, status = cancelled, fillPrice = None,
          createdAt = 0, updatedAt = 1\<rparr>"]
  by (simp add: runOps_def emptyTracker_def createPosition_def markFilled_def markExit_def
      markCancelled_def getByDigest_def terminal_def guardedOp_def Let_def)

text \<open>
  The tracker itself does not enforce the graph: \<open>markFilled\<close> writes \<open>filled\<close> over
  any status, so a cancelled position becomes filled again, and \<open>markExit\<close> writes the
  exit over any status, so a position that hit its take-profit is turned into a
  stop-loss exit.
\<close>

theorem C1_status_transitions_counterexample:
  "map_option status (map_of (positions
      (runOps [CreatePosition 4 100 long 1 ''e'' 0, MarkCancelled ''e'' 1]))
      (4, long, 100)) = Some cancelled
   \<and> map_option status (map_of (positions
      (runOps [CreatePosition 4 100 long 1 ''e'' 0, MarkCancelled ''e'' 1,
               MarkFilled ''e'' 100 ''tp'' ''sl'' 2]))
      (4, long, 100)) = Some filled
   \<and> \<not> transition cancelled filled
   \<and> map_option status (map_of (positions
      (runOps [CreatePosition 4 100 long 1 ''e'' 0, MarkFilled ''e'' 100 ''tp'' ''sl'' 1,
               MarkExit ''tp'' exit_tp_hit 2]))
      (4, long, 100)) = Some tp_hit
   \<and> map_option status (map_of (positions
      (runOps [CreatePosition 4 100 long 1 ''e'' 0, MarkFilled ''e'' 100 ''tp'' ''sl'' 1,
               MarkExit ''tp'' exit_tp_hit 2, MarkExit ''sl'' exit_sl_hit 3]))
      (4, long, 100)) = Some sl_hit
   \<and> \<not> transition tp_hit sl_hit"
  by (simp add: runOps_def emptyTracker_def createPosition_def markFilled_def
      markCancelled_def markExit_def Let_def)

section \<open>Position tracker: the fill price\<close>

text \<open>
  C5 (as amended). A new position has no fill price, and in every state reached from
  the empty tracker a \<open>pending\<close> position has no fill price and a \<open>filled\<close> position
  has one. \<open>markFilled\<close> on a digest that resolves to a position sets its status to
  \<open>filled\<close> and assigns \<open>fillPrice\<close> the call's fill price; a step that takes a
  position in its slot from \<open>pending\<close> to \<open>filled\<close> is a \<open>markFilled\<close> call, and
  afterwards \<open>fillPrice\<close> is that call's fill price. In a call that is not a
  \<open>markFilled\<close> on a position past \<open>pending\<close>, \<open>fillPrice\<close> changes only in the step
  from \<open>pending\<close> to \<open>filled\<close>; and once the position has left \<open>pending\<close>, no run of
  such calls changes it while the position lives in its slot.
\<close>

theorem C5_fillPrice_once:
  "fillPrice (fst (createPosition pId lvl sd sz d now t)) = None
   \<and> (map_of (positions (runOps ops0)) k = Some q \<longrightarrow>
        (status q = pending \<longrightarrow> fillPrice q = None)
        \<and> (status q = filled \<longrightarrow> fillPrice q \<noteq> None))
   \<and> (getByDigest t e = Some q0 \<longrightarrow>
        getByDigest (applyOp t (MarkFilled e px tp sl n)) e =
          Some (q0\<lparr>status := filled, fillPrice := Some px, tpOrderDigest := Some tp,
                   slOrderDigest := Some sl, updatedAt := n\<rparr>))
   \<and> (\<not> createsAt op i \<longrightarrow> map_of (positions t) i = Some p \<longrightarrow>
        map_of (positions (applyOp t op)) i = Some p' \<longrightarrow>
        status p = pending \<longrightarrow> status p' = filled \<longrightarrow>
        (\<exists>e' px' tp' sl' n'. op = MarkFilled e' px' tp' sl' n' \<and> fillPrice p' = Some px'))
   \<and> (fillGuarded t op \<longrightarrow> \<not> createsAt op i \<longrightarrow> map_of (positions t) i = Some p \<longrightarrow>
      map_of (positions (applyOp t op)) i = Some p' \<longrightarrow>
      fillPrice p' = fillPrice p \<or> (status p = pending \<and> status p' = filled))
   \<and> (fillGuardedRun t ops \<longrightarrow> noCreationAt ops i \<longrightarrow> map_of (positions t) i = Some p \<longrightarrow>
      status p \<noteq> pending \<longrightarrow> map_of (positions (foldl applyOp t ops)) i = Some p'' \<longrightarrow>
      fillPrice p'' = fillPrice p)"
proof -
  have a: "fillPrice (fst (createPosition pId lvl sd sz d now t)) = None"
    by (simp add: createPosition_def Let_def)
  show ?thesis
    using a runOps_fillPrice_status [of ops0 k q] markFilled_assigns [of t e q0 px tp sl n]
      step_fill_assigns [of op i t p p'] step_fillPrice [of t op i p p']
      run_fillPrice [of t ops i p p'']
    by blast
qed

theorem C5_fillPrice_once_witness:
  "map_option status (map_of (positions (runOps [CreatePosition 4 100 long 1 ''e'' 0]))
        (4, long, 100)) = Some pending
   \<and> map_option fillPrice (map_of (positions (runOps [CreatePosition 4 100 long 1 ''e'' 0]))
        (4, long, 100)) = Some None
   \<and> map_option status (getByDigest (runOps [CreatePosition 4 100 long 1 ''e'' 0]) ''e'')
        = Some pending
   \<and> map_option fillPrice (getByDigest
        (applyOp (runOps [CreatePosition 4 100 long 1 ''e'' 0])
           (MarkFilled ''e'' 100 ''tp'' ''sl'' 1)) ''e'') = Some (Some 100)
   \<and> fillGuarded (runOps [CreatePosition 4 100 long 1 ''e'' 0]) (MarkFilled ''e'' 100 ''tp'' ''sl'' 1)
   \<and> \<not> createsAt (MarkFilled ''e'' 100 ''tp'' ''sl'' 1) (4, long, 100)
   \<and> map_option status (map_of (positions
        (applyOp (runOps [CreatePosition 4 100 long 1 ''e'' 0])
           (MarkFilled ''e'' 100 ''tp'' ''sl'' 1)))
        (4, long, 100)) = Some filled
   \<and> map_option fillPrice (map_of (positions
        (applyOp (runOps [CreatePosition 4 100 long 1 ''e'' 0])
           (MarkFilled ''e'' 100 ''tp'' ''sl'' 1)))
        (4, long, 100)) = Some (Some 100)
   \<and> fillGuardedRun (runOps [CreatePosition 4 100 long 1 ''e'' 0, MarkFilled ''e'' 100 ''tp'' ''sl'' 1])
        [MarkCancelled ''e'' 2, MarkExit ''sl'' exit_sl_hit 3, MarkExit ''tp'' exit_tp_hit 4]
   \<and> noCreationAt [MarkCancelled ''e'' 2, MarkExit ''sl'' exit_sl_hit 3, MarkExit ''tp'' exit_tp_hit 4]
        (4, long, 100)
   \<and> map_option fillPrice (map_of (positions
        (foldl applyOp
           (runOps [CreatePosition 4 100 long 1 ''e'' 0, MarkFilled ''e'' 100 ''tp'' ''sl'' 1])
           [MarkCancelled ''e'' 2, MarkExit ''sl'' exit_sl_hit 3, MarkExit ''tp'' exit_tp_hit 4]))
        (4, long, 100)) = Some (Some 100)"
  using C5_fillPrice_once
    [where t = "runOps [CreatePosition 4 100 long 1 ''e'' 0]"
       and ops0 = "[CreatePosition 4 100 long 1 ''e'' 0]" and k = "(4, long, 100)"
       and q = "\<lparr>id_pos = (4, long, 100), productId = 4, level = 100, side = long,
          size_pos = 1, entryOrderDigest = Some ''e'', tpOrderDigest = None,
          slOrderDigest = None, status = pending, fillPrice = None,
          createdAt = 0, updatedAt = 0\<rparr>"
       and e = "''e''"
       and ?q0.0 = "\<lparr>id_pos = (4, long, 100), productId = 4, level = 100, side = long,
          size_pos = 1, entryOrderDigest = Some ''e'', tpOrderDigest = None,
          slOrderDigest = None, status = pending, fillPrice = None,
          createdAt = 0, updatedAt = 0\<rparr>"
       and px = 100 and tp = "''tp''" and sl = "''sl''" and n = 1
       and op = "MarkFilled ''e'' 100 ''tp'' ''sl'' 1" and i = "(4, long, 100)"
       and p = "\<lparr>id_pos = (4, long, 100), productId = 4, level = 100, side = long,
          size_pos = 1, entryOrderDigest = Some ''e'', tpOrderDigest = None,
          slOrderDigest = None, status = pending, fillPrice = None,
          createdAt = 0, updatedAt = 0\<rparr>"
       and p' = "\<lparr>id_pos = (4, long, 100), productId = 4, level = 100, side = long,
          size_pos = 1, entryOrderDigest = Some ''e'', tpOrderDigest = Some ''tp'',
          slOrderDigest = Some ''sl'', status = filled, fillPrice = Some 100,
          createdAt = 0, updatedAt = 1\<rparr>"]
    C5_fillPrice_once
    [where t = "runOps [CreatePosition 4 100 long 1 ''e'' 0, MarkFilled ''e'' 100 ''tp'' ''sl'' 1]"
       and i = "(4, long, 100)"
       and p = "\<lparr>id_pos = (4, long, 100), productId = 4, level = 100, side = long,
          size_pos = 1, entryOrderDigest = Some ''e'', tpOrderDigest = Some ''tp'',
          slOrderDigest = Some ''sl'', status = filled, fillPrice = Some 100,
          createdAt = 0, updatedAt = 1\<rparr>"
       and ops = "[MarkCancelled ''e'' 2, MarkExit ''sl'' exit_sl_hit 3, MarkExit ''tp'' exit_tp_hit 4]"
       and p'' = "\<lparr>id_pos = (4, long, 100), productId = 4, level = 100, side = long,
          size_pos = 1, entryOrderDigest = Some ''e'', tpOrderDigest = Some ''tp'',
          slOrderDigest = Some ''sl'', status = tp_hit, fillPrice = Some 100,
          createdAt = 0, updatedAt = 4\<rparr>"]
  by (simp add: runOps_def emptyTracker_def createPosition_def markFilled_def markExit_def
      markCancelled_def getByDigest_def Let_def)

text \<open>
  \<open>markFilled\<close> itself assigns \<open>fillPrice\<close> whatever the status: called twice for the
  same entry digest it overwrites the first fill price.
\<close>

theorem C5_fillPrice_once_counterexample:
  "map_option fillPrice (map_of (positions
      (runOps [CreatePosition 4 100 long 1 ''e'' 0, MarkFilled ''e'' 100 ''tp'' ''sl'' 1]))
      (4, long, 100)) = Some (Some 100)
   \<and> map_option fillPrice (map_of (positions
      (runOps [CreatePosition 4 100 long 1 ''e'' 0, MarkFilled ''e'' 100 ''tp'' ''sl'' 1,
               MarkFilled ''e'' 200 ''tp2'' ''sl2'' 2]))
      (4, long, 100)) = Some (Some 200)"
  by (simp add: runOps_def emptyTracker_def createPosition_def markFilled_def Let_def)

section \<open>Position tracker: one active position per slot\<close>

text \<open>
  C2. In every state the tracker reaches from empty by any calls of \<open>createPosition\<close>,
  \<open>markFilled\<close>, \<open>markExit\<close>, \<open>markCancelled\<close> and \<open>cleanup\<close>, and for every slot
  (product, side, level), at most one of the registered positions that are \<open>pending\<close>
  or \<open>filled\<close> belongs to that slot, and \<open>hasActivePosition\<close> answers whether there
  is one.
\<close>

theorem C2_one_active_per_slot:
  "length (filter (\<lambda>p. productId p = pId \<and> side p = sd \<and> level p = lvl)
             (getActivePositions (runOps ops))) \<le> 1
   \<and> hasActivePosition (runOps ops) pId sd lvl =
       (\<exists>p \<in> set (getActivePositions (runOps ops)).
          productId p = pId \<and> side p = sd \<and> level p = lvl)"
proof -
  let ?t = "runOps ops"
  have inv: "registryInv ?t" by (rule registryInv_runOps)
  have "length (filter (\<lambda>p. (status p = pending \<or> status p = filled)
                   \<and> productId p = pId \<and> side p = sd \<and> level p = lvl)
               (map snd (positions ?t))) \<le> 1"
  proof (rule filter_same_key_le1 [where c = "(pId, sd, lvl)"])
    show "distinct (map fst (positions ?t))" using inv by (simp add: registryInv_def)
  next
    fix kv assume "kv \<in> set (positions ?t)"
      and "(status (snd kv) = pending \<or> status (snd kv) = filled)
            \<and> productId (snd kv) = pId \<and> side (snd kv) = sd \<and> level (snd kv) = lvl"
    then show "fst kv = (pId, sd, lvl)"
      using inv by (auto simp: registryInv_def)
  qed
  then have "length (filter (\<lambda>p. productId p = pId \<and> side p = sd \<and> level p = lvl)
             (getActivePositions ?t)) \<le> 1"
    by (simp add: getActivePositions_def conj_commute conj_left_commute)
  then show ?thesis
    using hasActive_iff [OF inv, of pId sd lvl] by simp
qed

section \<open>Position tracker: the paired exit order\<close>

text \<open>
  C4 (as amended). When a reference resolves to a position whose take-profit and
  stop-loss digests are both recorded and both non-empty, \<open>markExit\<close> with \<open>tp_hit\<close>
  returns the stop-loss digest and \<open>markExit\<close> with \<open>sl_hit\<close> returns the take-profit
  digest: the digest of the other exit order, never \<open>null\<close>. The position's status
  becomes the exit kind.
\<close>

theorem C4_paired_digest:
  assumes "getByDigest t ref = Some p"
    and "tpOrderDigest p = Some tp" and "slOrderDigest p = Some sl"
    and "tp \<noteq> []" and "sl \<noteq> []"
  shows "map_option snd (fst (markExit ref exit_tp_hit now t)) = Some (Some sl)
       \<and> map_option snd (fst (markExit ref exit_sl_hit now t)) = Some (Some tp)
       \<and> map_option (status \<circ> fst) (fst (markExit ref exit_tp_hit now t)) = Some tp_hit
       \<and> map_option (status \<circ> fst) (fst (markExit ref exit_sl_hit now t)) = Some sl_hit"
  using assms
  by (auto simp: markExit_def getByDigest_def Let_def split: option.splits)

theorem C4_paired_digest_witness:
  "getByDigest (runOps [CreatePosition 4 100 long 1 ''e'' 0, MarkFilled ''e'' 100 ''tp'' ''sl'' 1])
     ''tp''
     = Some \<lparr>id_pos = (4, long, 100), productId = 4, level = 100, side = long,
          size_pos = 1, entryOrderDigest = Some ''e'', tpOrderDigest = Some ''tp'',
          slOrderDigest = Some ''sl'', status = filled, fillPrice = Some 100,
          createdAt = 0, updatedAt = 1\<rparr>
   \<and> map_option snd (fst (markExit ''tp'' exit_tp_hit 2
        (runOps [CreatePosition 4 100 long 1 ''e'' 0, MarkFilled ''e'' 100 ''tp'' ''sl'' 1])))
     = Some (Some ''sl'')
   \<and> map_option snd (fst (markExit ''tp'' exit_sl_hit 2
        (runOps [CreatePosition 4 100 long 1 ''e'' 0, MarkFilled ''e'' 100 ''tp'' ''sl'' 1])))
     = Some (Some ''tp'')"
  using C4_paired_digest
    [of "runOps [CreatePosition 4 100 long 1 ''e'' 0, MarkFilled ''e'' 100 ''tp'' ''sl'' 1]"
        "''tp''"
        "\<lparr>id_pos = (4, long, 100), productId = 4, level = 100, side = long,
          size_pos = 1, entryOrderDigest = Some ''e'', tpOrderDigest = Some ''tp'',
          slOrderDigest = Some ''sl'', status = filled, fillPrice = Some 100,
          createdAt = 0, updatedAt = 1\<rparr>" "''tp''" "''sl''" 2]
  by (simp add: runOps_def emptyTracker_def createPosition_def markFilled_def
      getByDigest_def Let_def)

text \<open>
  The source tests the stored digest by truthiness, so an empty string, although not
  \<open>null\<close>, is not returned: with an empty stop-loss digest recorded, the take-profit
  exit gets \<open>null\<close> as its paired digest.
\<close>

theorem C4_paired_digest_counterexample:
  "map_option status (getByDigest
      (runOps [CreatePosition 4 100 long 1 ''e'' 0, MarkFilled ''e'' 100 ''tp'' [] 1]) ''tp'')
     = Some filled
   \<and> map_option tpOrderDigest (getByDigest
      (runOps [CreatePosition 4 100 long 1 ''e'' 0, MarkFilled ''e'' 100 ''tp'' [] 1]) ''tp'')
     = Some (Some ''tp'')
   \<and> map_option slOrderDigest (getByDigest
      (runOps [CreatePosition 4 100 long 1 ''e'' 0, MarkFilled ''e'' 100 ''tp'' [] 1]) ''tp'')
     = Some (Some [])
   \<and> map_option snd (fst (markExit ''tp'' exit_tp_hit 2
        (runOps [CreatePosition 4 100 long 1 ''e'' 0, MarkFilled ''e'' 100 ''tp'' [] 1])))
     = Some None"
  by (simp add: runOps_def emptyTracker_def createPosition_def markFilled_def markExit_def
      getByDigest_def Let_def)

section \<open>Position tracker: the purge\<close>

text \<open>
  C8 (as amended). In every registry (a \<open>Map\<close>: unique keys) \<open>cleanup\<close> returns, with
  exactly the entries whose status is \<open>tp_hit\<close>, \<open>sl_hit\<close> or \<open>cancelled\<close> removed and
  every other entry left as it was, whatever its timestamps. From the digest index it
  deletes every non-empty entry, take-profit and stop-loss digest recorded in a removed
  position, and leaves every other index entry as it was. The list of active positions
  is unchanged.
\<close>

theorem C8_cleanup:
  assumes "distinct (map fst (positions t))"
  shows "positions (cleanup t) = filter (\<lambda>kv. \<not> terminal (status (snd kv))) (positions t)
       \<and> digestToPositionId (cleanup t) d =
             (if d \<in> set (terminalDigests (positions t)) then None
              else digestToPositionId t d)
       \<and> getActivePositions (cleanup t) = getActivePositions t"
  using cleanup_positions [OF assms] cleanup_digests [of t d]
  by (simp add: getActivePositions_def active_filter_nonterminal)

theorem C8_cleanup_witness:
  "distinct (map fst (positions
      (runOps [CreatePosition 4 100 long 1 ''e1'' 0, CreatePosition 4 90 long 1 ''e2'' 1,
               MarkFilled ''e1'' 100 ''tp'' ''sl'' 2, MarkExit ''tp'' exit_tp_hit 3])))
   \<and> map fst (positions (cleanup
      (runOps [CreatePosition 4 100 long 1 ''e1'' 0, CreatePosition 4 90 long 1 ''e2'' 1,
               MarkFilled ''e1'' 100 ''tp'' ''sl'' 2, MarkExit ''tp'' exit_tp_hit 3])))
     = [(4, long, 90)]
   \<and> digestToPositionId (cleanup
      (runOps [CreatePosition 4 100 long 1 ''e1'' 0, CreatePosition 4 90 long 1 ''e2'' 1,
               MarkFilled ''e1'' 100 ''tp'' ''sl'' 2, MarkExit ''tp'' exit_tp_hit 3])) ''sl''
     = None
   \<and> digestToPositionId (cleanup
      (runOps [CreatePosition 4 100 long 1 ''e1'' 0, CreatePosition 4 90 long 1 ''e2'' 1,
               MarkFilled ''e1'' 100 ''tp'' ''sl'' 2, MarkExit ''tp'' exit_tp_hit 3])) ''e2''
     = Some (4, long, 90)"
  using C8_cleanup
    [of "runOps [CreatePosition 4 100 long 1 ''e1'' 0, CreatePosition 4 90 long 1 ''e2'' 1,
               MarkFilled ''e1'' 100 ''tp'' ''sl'' 2, MarkExit ''tp'' exit_tp_hit 3]" "''sl''"]
    C8_cleanup
    [of "runOps [CreatePosition 4 100 long 1 ''e1'' 0, CreatePosition 4 90 long 1 ''e2'' 1,
               MarkFilled ''e1'' 100 ''tp'' ''sl'' 2, MarkExit ''tp'' exit_tp_hit 3]" "''e2''"]
  by (simp add: runOps_def emptyTracker_def createPosition_def markFilled_def markExit_def
      terminal_def positionDigests_def Let_def)

text \<open>
  The digests are deleted by name, and only when non-empty. So a pending position that
  shares its entry digest with a cancelled one loses its index entry in the purge, and a
  cancelled position created with an empty digest leaves its index entry behind.
\<close>

theorem C8_cleanup_counterexample:
  "map_option status (getByEntryDigest
      (runOps [CreatePosition 4 100 long 1 ''d'' 0, MarkCancelled ''d'' 1,
               CreatePosition 4 90 long 1 ''d'' 2]) ''d'') = Some pending
   \<and> digestToPositionId
      (runOps [CreatePosition 4 100 long 1 ''d'' 0, MarkCancelled ''d'' 1,
               CreatePosition 4 90 long 1 ''d'' 2]) ''d'' = Some (4, long, 90)
   \<and> digestToPositionId (cleanup
      (runOps [CreatePosition 4 100 long 1 ''d'' 0, MarkCancelled ''d'' 1,
               CreatePosition 4 90 long 1 ''d'' 2])) ''d'' = None
   \<and> map fst (positions (cleanup
      (runOps [CreatePosition 4 100 long 1 ''d'' 0, MarkCancelled ''d'' 1,
               CreatePosition 4 90 long 1 ''d'' 2]))) = [(4, long, 90)]
   \<and> positions (cleanup (runOps [CreatePosition 4 100 long 1 [] 0, MarkCancelled [] 1])) = []
   \<and> digestToPositionId (cleanup (runOps [CreatePosition 4 100 long 1 [] 0, MarkCancelled [] 1]))
        [] = Some (4, long, 100)"
  by (simp add: runOps_def emptyTracker_def createPosition_def markCancelled_def
      getByEntryDigest_def cleanup_def cleanupEntry_def Let_def)

section \<open>Strategy engine: the fill handler\<close>

subsection \<open>The cancellation pass only marks positions cancelled\<close>

lemma markCancelled_digests:
  "digestToPositionId (snd (markCancelled d now t)) = digestToPositionId t"
  by (simp add: markCancelled_def Let_def split: option.splits)

lemma markCancelled_map_of:
  "map_of (positions (snd (markCancelled d now t))) k =
     (if digestToPositionId t d = Some k then
        (case map_of (positions t) k of
           None \<Rightarrow> None
         | Some p \<Rightarrow> if status p = pending then Some (markedCancelled now p) else Some p)
      else map_of (positions t) k)"
  by (auto simp: markCancelled_def markedCancelled_def Let_def update_conv' split: option.splits)

lemma cancelCandidate_digests:
  "digestToPositionId (fst (cancelCandidate om now (t, acts) c)) = digestToPositionId t"
  by (simp add: cancelCandidate_def markCancelled_digests split: option.splits)

lemma cancelCandidate_map_of:
  "map_of (positions (fst (cancelCandidate om now (t, acts) c))) k = map_of (positions t) k
   \<or> (\<exists>p d. entryOrderDigest c = Some d \<and> digestToPositionId t d = Some k
         \<and> map_of (positions t) k = Some p
         \<and> map_of (positions (fst (cancelCandidate om now (t, acts) c))) k
             = Some (markedCancelled now p))"
  by (auto simp: cancelCandidate_def markCancelled_map_of split: option.splits)

lemma cancelCandidate_acts:
  "filter isPlaceTakeProfit (snd (cancelCandidate om now (t, acts) c)) = filter isPlaceTakeProfit acts"
  "filter isPlaceStopLoss (snd (cancelCandidate om now (t, acts) c)) = filter isPlaceStopLoss acts"
  "filter isTpSlFailure (snd (cancelCandidate om now (t, acts) c)) = filter isTpSlFailure acts"
  by (auto simp: cancelCandidate_def split: option.splits)

lemma markedCancelled_idem [simp]:
  "markedCancelled now (markedCancelled now p) = markedCancelled now p"
  by (simp add: markedCancelled_def)

lemma cancelFold:
  "digestToPositionId (fst (foldl (cancelCandidate om now) (t, acts) cs)) = digestToPositionId t
   \<and> (map_of (positions (fst (foldl (cancelCandidate om now) (t, acts) cs))) k
         = map_of (positions t) k
       \<or> (\<exists>p c d. c \<in> set cs \<and> entryOrderDigest c = Some d \<and> digestToPositionId t d = Some k
             \<and> map_of (positions t) k = Some p
             \<and> map_of (positions (fst (foldl (cancelCandidate om now) (t, acts) cs))) k
                 = Some (markedCancelled now p)))
   \<and> filter isPlaceTakeProfit (snd (foldl (cancelCandidate om now) (t, acts) cs))
        = filter isPlaceTakeProfit acts
   \<and> filter isPlaceStopLoss (snd (foldl (cancelCandidate om now) (t, acts) cs))
        = filter isPlaceStopLoss acts
   \<and> filter isTpSlFailure (snd (foldl (cancelCandidate om now) (t, acts) cs))
        = filter isTpSlFailure acts"
proof (induction cs arbitrary: t acts)
  case Nil
  then show ?case by simp
next
  case (Cons c cs)
  obtain t' acts' where step: "cancelCandidate om now (t, acts) c = (t', acts')"
    by (cases "cancelCandidate om now (t, acts) c")
  have d': "digestToPositionId t' = digestToPositionId t"
    using cancelCandidate_digests [of om now t acts c] step by simp
  have a': "filter isPlaceTakeProfit acts' = filter isPlaceTakeProfit acts"
    "filter isPlaceStopLoss acts' = filter isPlaceStopLoss acts"
    "filter isTpSlFailure acts' = filter isTpSlFailure acts"
    using cancelCandidate_acts [of om now t acts c] step by simp_all
  have m': "map_of (positions t') k = map_of (positions t) k
     \<or> (\<exists>p d. entryOrderDigest c = Some d \<and> digestToPositionId t d = Some k
         \<and> map_of (positions t) k = Some p
         \<and> map_of (positions t') k = Some (markedCancelled now p))"
    using cancelCandidate_map_of [of om now t acts c k] step by simp
  note IH = Cons.IH [of t' acts']
  show ?case
    unfolding foldl_Cons step
    using IH d' a' m'
    by (elim conjE disjE exE) (simp_all, (metis markedCancelled_idem option.inject)+)
qed

subsection \<open>The fill handler unfolded\<close>

lemma onFill_long:
  assumes "getByEntryDigest t (order_digest ev) = Some p" and "status p = pending"
    and "side p = long"
    and "cancelOppositePendingEntries om now t (productId p) long (order_digest ev) = (t1, acts)"
    and "normalizeStreamPrice pf (price ev) = fp"
  shows "onFill pf om cfg now t ev =
     (if success (tpResult om) \<and> success (slResult om) then
        (snd (markFilled (order_digest ev) fp (digest (tpResult om)) (digest (slResult om))
                now t1),
         LogEntryFilled (id_pos p) long fp (normalizeStreamPrice pf (filled_qty ev))
             (normalizeStreamPrice pf (remaining_qty ev)) # acts @
           [CallPlaceTakeProfit (productId p) (fp + fp * (tpPercent cfg / 100))
              ((fp + fp * (tpPercent cfg / 100)) * 0.995) (- size_pos p) True,
            CallPlaceStopLoss (productId p) (fp - fp * (slPercent cfg / 100))
              ((fp - fp * (slPercent cfg / 100)) * 0.995) (- size_pos p) True])
      else
        (t1,
         LogEntryFilled (id_pos p) long fp (normalizeStreamPrice pf (filled_qty ev))
             (normalizeStreamPrice pf (remaining_qty ev)) # acts @
           [CallPlaceTakeProfit (productId p) (fp + fp * (tpPercent cfg / 100))
              ((fp + fp * (tpPercent cfg / 100)) * 0.995) (- size_pos p) True,
            CallPlaceStopLoss (productId p) (fp - fp * (slPercent cfg / 100))
              ((fp - fp * (slPercent cfg / 100)) * 0.995) (- size_pos p) True] @
           [LogTpSlFailed (id_pos p) (success (tpResult om)) (success (slResult om))
              (orNull (digest (tpResult om))) (orNull (digest (slResult om)))]))"
  unfolding onFill_def Let_def
  by (simp only: assms option.case if_False if_True not_True_eq_False simp_thms prod.case)

lemma onFill_short:
  assumes "getByEntryDigest t (order_digest ev) = Some p" and "status p = pending"
    and "side p = short"
    and "cancelOppositePendingEntries om now t (productId p) short (order_digest ev) = (t1, acts)"
    and "normalizeStreamPrice pf (price ev) = fp"
  shows "onFill pf om cfg now t ev =
     (if success (tpResult om) \<and> success (slResult om) then
        (snd (markFilled (order_digest ev) fp (digest (tpResult om)) (digest (slResult om))
                now t1),
         LogEntryFilled (id_pos p) short fp (normalizeStreamPrice pf (filled_qty ev))
             (normalizeStreamPrice pf (remaining_qty ev)) # acts @
           [CallPlaceTakeProfit (productId p) (fp - fp * (tpPercent cfg / 100))
              ((fp - fp * (tpPercent cfg / 100)) * 1.005) (size_pos p) False,
            CallPlaceStopLoss (productId p) (fp + fp * (slPercent cfg / 100))
              ((fp + fp * (slPercent cfg / 100)) * 1.005) (size_pos p) False])
      else
        (t1,
         LogEntryFilled (id_pos p) short fp (normalizeStreamPrice pf (filled_qty ev))
             (normalizeStreamPrice pf (remaining_qty ev)) # acts @
           [CallPlaceTakeProfit (productId p) (fp - fp * (tpPercent cfg / 100))
              ((fp - fp * (tpPercent cfg / 100)) * 1.005) (size_pos p) False,
            CallPlaceStopLoss (productId p) (fp + fp * (slPercent cfg / 100))
              ((fp + fp * (slPercent cfg / 100)) * 1.005) (size_pos p) False] @
           [LogTpSlFailed (id_pos p) (success (tpResult om)) (success (slResult om))
              (orNull (digest (tpResult om))) (orNull (digest (slResult om)))]))"
  unfolding onFill_def Let_def
  by (simp only: assms option.case if_False if_True not_True_eq_False simp_thms prod.case
      OrderSide.distinct)

text \<open>
  The shape of a run of the fill handler that passes both guards: the cancellation
  pass, then the two placements, then either the commit or the error report.
\<close>

lemma onFill_shape:
  assumes "getByEntryDigest t (order_digest ev) = Some p" and "status p = pending"
    and "cancelOppositePendingEntries om now t (productId p) (side p) (order_digest ev) = (t1, acts)"
  shows "\<exists>tpT tpL slT slL amt lg.
     onFill pf om cfg now t ev =
     (if success (tpResult om) \<and> success (slResult om) then
        (snd (markFilled (order_digest ev) (normalizeStreamPrice pf (price ev))
                (digest (tpResult om)) (digest (slResult om)) now t1),
         LogEntryFilled (id_pos p) (side p) (normalizeStreamPrice pf (price ev))
             (normalizeStreamPrice pf (filled_qty ev))
             (normalizeStreamPrice pf (remaining_qty ev)) # acts @
           [CallPlaceTakeProfit (productId p) tpT tpL amt lg,
            CallPlaceStopLoss (productId p) slT slL amt lg])
      else
        (t1,
         LogEntryFilled (id_pos p) (side p) (normalizeStreamPrice pf (price ev))
             (normalizeStreamPrice pf (filled_qty ev))
             (normalizeStreamPrice pf (remaining_qty ev)) # acts @
           [CallPlaceTakeProfit (productId p) tpT tpL amt lg,
            CallPlaceStopLoss (productId p) slT slL amt lg] @
           [LogTpSlFailed (id_pos p) (success (tpResult om)) (success (slResult om))
              (orNull (digest (tpResult om))) (orNull (digest (slResult om)))]))"
proof (cases "side p")
  case long
  show ?thesis
    unfolding long
    by (intro exI, rule onFill_long [OF assms(1,2) long assms(3) [unfolded long] refl])
next
  case short
  show ?thesis
    unfolding short
    by (intro exI, rule onFill_short [OF assms(1,2) short assms(3) [unfolded short] refl])
qed


subsection \<open>The filled position across the handler\<close>

lemma cancelPass:
  assumes "cancelOppositePendingEntries om now t pId sd d = (t1, acts)"
  shows "digestToPositionId t1 = digestToPositionId t"
    and "map_of (positions t1) k = map_of (positions t) k
         \<or> (\<exists>p d'. d' \<noteq> d \<and> digestToPositionId t d' = Some k
               \<and> map_of (positions t) k = Some p
               \<and> map_of (positions t1) k = Some (markedCancelled now p))"
    and "filter isPlaceTakeProfit acts = []"
    and "filter isPlaceStopLoss acts = []"
    and "filter isTpSlFailure acts = []"
proof -
  let ?cs = "filter (\<lambda>p. productId p = pId \<and> status p = pending
                 \<and> side p = (if sd = long then short else long) \<and> truthy (entryOrderDigest p)
                 \<and> entryOrderDigest p \<noteq> Some d) (getActivePositions t)"
  have eq: "foldl (cancelCandidate om now) (t, []) ?cs = (t1, acts)"
    using assms by (simp add: cancelOppositePendingEntries_def Let_def)
  note F = cancelFold [of om now t "[]" ?cs k, unfolded eq, simplified]
  show "digestToPositionId t1 = digestToPositionId t" using F by simp
  show "filter isPlaceTakeProfit acts = []" using F by simp
  show "filter isPlaceStopLoss acts = []" using F by simp
  show "filter isTpSlFailure acts = []" using F by simp
  show "map_of (positions t1) k = map_of (positions t) k
         \<or> (\<exists>p d'. d' \<noteq> d \<and> digestToPositionId t d' = Some k
               \<and> map_of (positions t) k = Some p
               \<and> map_of (positions t1) k = Some (markedCancelled now p))"
    using F by auto
qed

lemma cancelPass_lookup:
  assumes "cancelOppositePendingEntries om now t pId sd d = (t1, acts)"
    and "getByEntryDigest t d = Some p"
  shows "getByEntryDigest t1 d = Some p \<or> getByEntryDigest t1 d = Some (markedCancelled now p)"
    and "soleReference t d \<Longrightarrow> getByEntryDigest t1 d = Some p"
proof -
  obtain k where k: "digestToPositionId t d = Some k" "map_of (positions t) k = Some p"
    using assms(2) by (auto simp: getByEntryDigest_def split: option.splits)
  note P = cancelPass(1) [OF assms(1)] cancelPass(2) [OF assms(1), of k]
  show "getByEntryDigest t1 d = Some p \<or> getByEntryDigest t1 d = Some (markedCancelled now p)"
    using P(1,2) k by (auto simp: getByEntryDigest_def)
  show "getByEntryDigest t1 d = Some p" if sr: "soleReference t d"
  proof -
    have "\<And>d'. digestToPositionId t d' = Some k \<Longrightarrow> d' = d"
      using sr k(1) unfolding soleReference_def by simp
    then have "map_of (positions t1) k = map_of (positions t) k"
      using P(2) by blast
    then show ?thesis using P(1) k by (simp add: getByEntryDigest_def)
  qed
qed

lemma markFilled_lookup:
  assumes "getByEntryDigest t d = Some p"
  shows "getByEntryDigest (snd (markFilled d px tp sl now t)) d =
           Some (p\<lparr>status := filled, fillPrice := Some px, tpOrderDigest := Some tp,
                   slOrderDigest := Some sl, updatedAt := now\<rparr>)"
  using assms
  by (auto simp: getByEntryDigest_def markFilled_def Let_def update_conv' split: option.splits)


section \<open>Strategy engine: committing a fill\<close>

text \<open>
  C3. When the fill handler finds the event's digest on a \<open>pending\<close> position, it
  submits one take-profit and one stop-loss order and no more. If both results report
  success, the position is \<open>filled\<close> afterwards with the fill price and both digests
  recorded in the same step, and nothing is reported. If either result reports failure,
  \<open>markFilled\<close> is not applied and the tracker stays exactly as it was when the pair was
  submitted (after the handler's pass over the opposite-side entries): the position
  has no exit digest and no fill price recorded and is not \<open>filled\<close>, and the failure
  is reported once, with both success flags. The position is then exactly as it was
  before the handler whenever its entry digest is the only reference indexed to its
  slot; otherwise that pass may have marked it cancelled.
\<close>

theorem C3_fill_commit:
  assumes "getByEntryDigest t (order_digest ev) = Some p" and "status p = pending"
  shows "(success (tpResult om) \<and> success (slResult om) \<longrightarrow>
            getByEntryDigest (fst (onFill pf om cfg now t ev)) (order_digest ev) =
              Some (p\<lparr>status := filled,
                      fillPrice := Some (normalizeStreamPrice pf (price ev)),
                      tpOrderDigest := Some (digest (tpResult om)),
                      slOrderDigest := Some (digest (slResult om)),
                      updatedAt := now\<rparr>)
            \<and> filter isTpSlFailure (snd (onFill pf om cfg now t ev)) = [])
       \<and> (\<not> (success (tpResult om) \<and> success (slResult om)) \<longrightarrow>
            fst (onFill pf om cfg now t ev) =
              fst (cancelOppositePendingEntries om now t (productId p) (side p) (order_digest ev))
            \<and> (getByEntryDigest (fst (onFill pf om cfg now t ev)) (order_digest ev) = Some p
             \<or> getByEntryDigest (fst (onFill pf om cfg now t ev)) (order_digest ev)
                  = Some (markedCancelled now p))
            \<and> map_option status
                 (getByEntryDigest (fst (onFill pf om cfg now t ev)) (order_digest ev))
                 \<noteq> Some filled
            \<and> (soleReference t (order_digest ev) \<longrightarrow>
                 getByEntryDigest (fst (onFill pf om cfg now t ev)) (order_digest ev) = Some p)
            \<and> filter isTpSlFailure (snd (onFill pf om cfg now t ev)) =
                 [LogTpSlFailed (id_pos p) (success (tpResult om)) (success (slResult om))
                    (orNull (digest (tpResult om))) (orNull (digest (slResult om)))])
       \<and> length (filter isPlaceTakeProfit (snd (onFill pf om cfg now t ev))) = 1
       \<and> length (filter isPlaceStopLoss (snd (onFill pf om cfg now t ev))) = 1"
proof -
  let ?d = "order_digest ev"
  obtain t1 acts where cp:
    "cancelOppositePendingEntries om now t (productId p) (side p) ?d = (t1, acts)"
    by (cases "cancelOppositePendingEntries om now t (productId p) (side p) ?d")
  note A = cancelPass(3-5) [OF cp]
  note L = cancelPass_lookup [OF cp assms(1)]
  obtain tpT tpL slT slL amt lg where shape:
    "onFill pf om cfg now t ev =
     (if success (tpResult om) \<and> success (slResult om) then
        (snd (markFilled (order_digest ev) (normalizeStreamPrice pf (price ev))
                (digest (tpResult om)) (digest (slResult om)) now t1),
         LogEntryFilled (id_pos p) (side p) (normalizeStreamPrice pf (price ev))
             (normalizeStreamPrice pf (filled_qty ev))
             (normalizeStreamPrice pf (remaining_qty ev)) # acts @
           [CallPlaceTakeProfit (productId p) tpT tpL amt lg,
            CallPlaceStopLoss (productId p) slT slL amt lg])
      else
        (t1,
         LogEntryFilled (id_pos p) (side p) (normalizeStreamPrice pf (price ev))
             (normalizeStreamPrice pf (filled_qty ev))
             (normalizeStreamPrice pf (remaining_qty ev)) # acts @
           [CallPlaceTakeProfit (productId p) tpT tpL amt lg,
            CallPlaceStopLoss (productId p) slT slL amt lg] @
           [LogTpSlFailed (id_pos p) (success (tpResult om)) (success (slResult om))
              (orNull (digest (tpResult om))) (orNull (digest (slResult om)))]))"
    using onFill_shape [OF assms cp, of pf cfg] by blast
  show ?thesis
  proof (cases "success (tpResult om) \<and> success (slResult om)")
    case True
    have fin: "getByEntryDigest (snd (markFilled ?d (normalizeStreamPrice pf (price ev))
                 (digest (tpResult om)) (digest (slResult om)) now t1)) ?d =
               Some (p\<lparr>status := filled,
                      fillPrice := Some (normalizeStreamPrice pf (price ev)),
                      tpOrderDigest := Some (digest (tpResult om)),
                      slOrderDigest := Some (digest (slResult om)),
                      updatedAt := now\<rparr>)"
      using L(1) markFilled_lookup by (auto simp: markedCancelled_def)
    show ?thesis
      unfolding shape using True A fin by simp
  next
    case False
    show ?thesis
      unfolding shape using False A L assms(2) cp by (auto simp: markedCancelled_def)
  qed
qed


theorem C3_fill_commit_witness:
  "getByEntryDigest
      (runOps [CreatePosition 4 100 long 1 ''e'' 0, CreatePosition 4 120 short 1 ''f'' 0]) ''e''
     = Some \<lparr>id_pos = (4, long, 100), productId = 4, level = 100, side = long,
          size_pos = 1, entryOrderDigest = Some ''e'', tpOrderDigest = None,
          slOrderDigest = None, status = pending, fillPrice = None,
          createdAt = 0, updatedAt = 0\<rparr>
   \<and> soleReference
      (runOps [CreatePosition 4 100 long 1 ''e'' 0, CreatePosition 4 120 short 1 ''f'' 0]) ''e''
   \<and> getByEntryDigest (fst (onFill (\<lambda>s. NaN)
        \<lparr>cancelOrder = (\<lambda>d pId. True), tpResult = \<lparr>digest = ''tp'', success = True\<rparr>,
          slResult = \<lparr>digest = ''sl'', success = True\<rparr>\<rparr>
        \<lparr>tpPercent = 1.5, slPercent = 0.75\<rparr> 5
        (runOps [CreatePosition 4 100 long 1 ''e'' 0, CreatePosition 4 120 short 1 ''f'' 0])
        \<lparr>order_digest = ''e'', price = NumberValue (Finite 100),
          filled_qty = NumberValue (Finite 1), remaining_qty = NumberValue (Finite 0)\<rparr>)) ''e''
     = Some \<lparr>id_pos = (4, long, 100), productId = 4, level = 100, side = long,
          size_pos = 1, entryOrderDigest = Some ''e'', tpOrderDigest = Some ''tp'',
          slOrderDigest = Some ''sl'', status = filled, fillPrice = Some 100,
          createdAt = 0, updatedAt = 5\<rparr>
   \<and> getByEntryDigest (fst (onFill (\<lambda>s. NaN)
        \<lparr>cancelOrder = (\<lambda>d pId. True), tpResult = \<lparr>digest = ''tp'', success = True\<rparr>,
          slResult = \<lparr>digest = [], success = False\<rparr>\<rparr>
        \<lparr>tpPercent = 1.5, slPercent = 0.75\<rparr> 5
        (runOps [CreatePosition 4 100 long 1 ''e'' 0, CreatePosition 4 120 short 1 ''f'' 0])
        \<lparr>order_digest = ''e'', price = NumberValue (Finite 100),
          filled_qty = NumberValue (Finite 1), remaining_qty = NumberValue (Finite 0)\<rparr>)) ''e''
     = Some \<lparr>id_pos = (4, long, 100), productId = 4, level = 100, side = long,
          size_pos = 1, entryOrderDigest = Some ''e'', tpOrderDigest = None,
          slOrderDigest = None, status = pending, fillPrice = None,
          createdAt = 0, updatedAt = 0\<rparr>
   \<and> filter isTpSlFailure (snd (onFill (\<lambda>s. NaN)
        \<lparr>cancelOrder = (\<lambda>d pId. True), tpResult = \<lparr>digest = ''tp'', success = True\<rparr>,
          slResult = \<lparr>digest = [], success = False\<rparr>\<rparr>
        \<lparr>tpPercent = 1.5, slPercent = 0.75\<rparr> 5
        (runOps [CreatePosition 4 100 long 1 ''e'' 0, CreatePosition 4 120 short 1 ''f'' 0])
        \<lparr>order_digest = ''e'', price = NumberValue (Finite 100),
          filled_qty = NumberValue (Finite 1), remaining_qty = NumberValue (Finite 0)\<rparr>))
     = [LogTpSlFailed (4, long, 100) True False (Some ''tp'') None]"
proof -
  let ?t = "runOps [CreatePosition 4 100 long 1 ''e'' 0, CreatePosition 4 120 short 1 ''f'' 0]"
  let ?p = "\<lparr>id_pos = (4, long, 100), productId = 4, level = 100, side = long,
          size_pos = 1, entryOrderDigest = Some ''e'', tpOrderDigest = None,
          slOrderDigest = None, status = pending, fillPrice = None,
          createdAt = 0, updatedAt = 0\<rparr>"
  let ?ev = "\<lparr>order_digest = ''e'', price = NumberValue (Finite 100),
          filled_qty = NumberValue (Finite 1), remaining_qty = NumberValue (Finite 0)\<rparr>"
  let ?both = "\<lparr>cancelOrder = (\<lambda>d pId. True), tpResult = \<lparr>digest = ''tp'', success = True\<rparr>,
           slResult = \<lparr>digest = ''sl'', success = True\<rparr>\<rparr>"
  let ?one = "\<lparr>cancelOrder = (\<lambda>d pId. True), tpResult = \<lparr>digest = ''tp'', success = True\<rparr>,
           slResult = \<lparr>digest = [], success = False\<rparr>\<rparr>"
  let ?cfg = "\<lparr>tpPercent = 1.5, slPercent = 0.75\<rparr>"
  have found: "getByEntryDigest ?t (order_digest ?ev) = Some ?p"
    by (simp add: runOps_def emptyTracker_def createPosition_def getByEntryDigest_def Let_def)
  have pend: "status ?p = pending" by simp
  have sole: "soleReference ?t (order_digest ?ev)"
    by (simp add: runOps_def emptyTracker_def createPosition_def soleReference_def Let_def)
  have ok: "success (tpResult ?both) \<and> success (slResult ?both)" by simp
  have failed: "\<not> (success (tpResult ?one) \<and> success (slResult ?one))" by simp
  have committed:
    "getByEntryDigest (fst (onFill (\<lambda>s. NaN) ?both ?cfg 5 ?t ?ev)) (order_digest ?ev) =
       Some (?p\<lparr>status := filled,
               fillPrice := Some (normalizeStreamPrice (\<lambda>s. NaN) (price ?ev)),
               tpOrderDigest := Some (digest (tpResult ?both)),
               slOrderDigest := Some (digest (slResult ?both)),
               updatedAt := 5\<rparr>)"
    using C3_fill_commit [OF found pend, of ?both "\<lambda>s. NaN" ?cfg 5] ok by blast
  have kept:
    "getByEntryDigest (fst (onFill (\<lambda>s. NaN) ?one ?cfg 5 ?t ?ev)) (order_digest ?ev) = Some ?p"
    using C3_fill_commit [OF found pend, of ?one "\<lambda>s. NaN" ?cfg 5] failed sole by blast
  have reported:
    "filter isTpSlFailure (snd (onFill (\<lambda>s. NaN) ?one ?cfg 5 ?t ?ev)) =
       [LogTpSlFailed (id_pos ?p) (success (tpResult ?one)) (success (slResult ?one))
          (orNull (digest (tpResult ?one))) (orNull (digest (slResult ?one)))]"
    using C3_fill_commit [OF found pend, of ?one "\<lambda>s. NaN" ?cfg 5] failed by blast
  show ?thesis
    using found sole committed kept reported
    by (simp add: normalizeStreamPrice_def orNull_def)
qed

section \<open>Strategy engine: exit prices of a long fill at 100\<close>





section \<open>Strategy engine: normalizing stream fields\<close>

text \<open>
  C10 (as amended). \<open>normalizeStreamPrice\<close> returns a number for every input, whatever
  \<open>parseFloat\<close> is: a number that is \<open>NaN\<close> or an infinity, and a string that
  \<open>parseFloat\<close> takes to \<open>NaN\<close> or an infinity, give 0; a finite value (or parse) of
  magnitude above \<open>10^12\<close> is divided by \<open>10^18\<close>; any other finite value is returned
  as it is. In the strategy engine the bid and ask of a price update enter the price
  cache normalized, and the fill handler reads the price and the two quantities of a
  fill event only through \<open>normalizeStreamPrice\<close>: two events with the same digest and
  the same normalized fields are handled alike, the \<open>Entry filled!\<close> record carries
  the three normalized values, and on success the normalized price is recorded as the
  fill price. In particular a fill for a \<open>pending\<close> position whose price
  \<open>parseFloat\<close> takes to \<open>NaN\<close> is not rejected: the handler goes on with fill price
  0, submits both exit orders with trigger and limit price 0, and on success records
  fill price 0.
\<close>

theorem C10_normalize_total:
  "normalizeStreamPrice pf (NumberValue (Finite x)) = (if \<bar>x\<bar> > 10 ^ 12 then x / 10 ^ 18 else x)
   \<and> normalizeStreamPrice pf (NumberValue NaN) = 0
   \<and> normalizeStreamPrice pf (NumberValue PosInfinity) = 0
   \<and> normalizeStreamPrice pf (NumberValue NegInfinity) = 0
   \<and> (pf s = Finite x \<longrightarrow>
        normalizeStreamPrice pf (StringValue s) = (if \<bar>x\<bar> > 10 ^ 12 then x / 10 ^ 18 else x))
   \<and> (pf s \<in> {NaN, PosInfinity, NegInfinity} \<longrightarrow> normalizeStreamPrice pf (StringValue s) = 0)
   \<and> onBestBidOffer pf prices bbo (product_id bbo) =
        Some ((normalizeStreamPrice pf (bid_price bbo)
                + normalizeStreamPrice pf (ask_price bbo)) / 2)
   \<and> (order_digest ev' = order_digest ev \<longrightarrow>
        normalizeStreamPrice pf (price ev') = normalizeStreamPrice pf (price ev) \<longrightarrow>
        normalizeStreamPrice pf (filled_qty ev') = normalizeStreamPrice pf (filled_qty ev) \<longrightarrow>
        normalizeStreamPrice pf (remaining_qty ev') = normalizeStreamPrice pf (remaining_qty ev) \<longrightarrow>
        onFill pf om cfg now t ev' = onFill pf om cfg now t ev)
   \<and> (getByEntryDigest t (order_digest ev) = Some p \<longrightarrow> status p = pending \<longrightarrow>
        hd (snd (onFill pf om cfg now t ev)) =
            LogEntryFilled (id_pos p) (side p)
              (normalizeStreamPrice pf (price ev))
              (normalizeStreamPrice pf (filled_qty ev))
              (normalizeStreamPrice pf (remaining_qty ev))
        \<and> (success (tpResult om) \<and> success (slResult om) \<longrightarrow>
             map_option fillPrice
               (getByEntryDigest (fst (onFill pf om cfg now t ev)) (order_digest ev))
             = Some (Some (normalizeStreamPrice pf (price ev)))))
   \<and> (getByEntryDigest t (order_digest ev) = Some p \<longrightarrow> status p = pending \<longrightarrow>
        price ev = StringValue s \<longrightarrow> pf s = NaN \<longrightarrow>
          filter isPlaceTakeProfit (snd (onFill pf om cfg now t ev)) =
            [CallPlaceTakeProfit (productId p) 0 0
               (if side p = long then - size_pos p else size_pos p) (side p = long)]
        \<and> filter isPlaceStopLoss (snd (onFill pf om cfg now t ev)) =
            [CallPlaceStopLoss (productId p) 0 0
               (if side p = long then - size_pos p else size_pos p) (side p = long)]
        \<and> hd (snd (onFill pf om cfg now t ev)) =
            LogEntryFilled (id_pos p) (side p) 0
              (normalizeStreamPrice pf (filled_qty ev))
              (normalizeStreamPrice pf (remaining_qty ev))
        \<and> (success (tpResult om) \<and> success (slResult om) \<longrightarrow>
             map_option fillPrice
               (getByEntryDigest (fst (onFill pf om cfg now t ev)) (order_digest ev))
             = Some (Some 0)))"
proof -
  have norm: "normalizeStreamPrice pf (NumberValue (Finite x)) =
                (if \<bar>x\<bar> > 10 ^ 12 then x / 10 ^ 18 else x)"
    "normalizeStreamPrice pf (NumberValue NaN) = 0"
    "normalizeStreamPrice pf (NumberValue PosInfinity) = 0"
    "normalizeStreamPrice pf (NumberValue NegInfinity) = 0"
    "pf s = Finite x \<longrightarrow>
        normalizeStreamPrice pf (StringValue s) = (if \<bar>x\<bar> > 10 ^ 12 then x / 10 ^ 18 else x)"
    "pf s \<in> {NaN, PosInfinity, NegInfinity} \<longrightarrow> normalizeStreamPrice pf (StringValue s) = 0"
    by (auto simp: normalizeStreamPrice_def)
  have bbo: "onBestBidOffer pf prices bbo (product_id bbo) =
        Some ((normalizeStreamPrice pf (bid_price bbo)
                + normalizeStreamPrice pf (ask_price bbo)) / 2)"
    by (simp add: onBestBidOffer_def Let_def)
  have fill: "filter isPlaceTakeProfit (snd (onFill pf om cfg now t ev)) =
            [CallPlaceTakeProfit (productId p) 0 0
               (if side p = long then - size_pos p else size_pos p) (side p = long)]
        \<and> filter isPlaceStopLoss (snd (onFill pf om cfg now t ev)) =
            [CallPlaceStopLoss (productId p) 0 0
               (if side p = long then - size_pos p else size_pos p) (side p = long)]
        \<and> hd (snd (onFill pf om cfg now t ev)) =
            LogEntryFilled (id_pos p) (side p) 0
              (normalizeStreamPrice pf (filled_qty ev))
              (normalizeStreamPrice pf (remaining_qty ev))
        \<and> (success (tpResult om) \<and> success (slResult om) \<longrightarrow>
             map_option fillPrice
               (getByEntryDigest (fst (onFill pf om cfg now t ev)) (order_digest ev))
             = Some (Some 0))"
    if a: "getByEntryDigest t (order_digest ev) = Some p" "status p = pending"
      "price ev = StringValue s" "pf s = NaN"
  proof -
    have z: "normalizeStreamPrice pf (price ev) = 0"
      using a(3,4) by (simp add: normalizeStreamPrice_def)
    obtain t1 acts where cp:
      "cancelOppositePendingEntries om now t (productId p) (side p) (order_digest ev) = (t1, acts)"
      by (cases "cancelOppositePendingEntries om now t (productId p) (side p) (order_digest ev)")
    note A = cancelPass(3-5) [OF cp]
    note L = cancelPass_lookup(1) [OF cp a(1)]
    have fin: "map_option fillPrice (getByEntryDigest (snd (markFilled (order_digest ev) 0
                 (digest (tpResult om)) (digest (slResult om)) now t1)) (order_digest ev))
               = Some (Some 0)"
      using L markFilled_lookup by (auto simp: markedCancelled_def)
    show ?thesis
    proof (cases "side p")
      case long
      show ?thesis
        unfolding onFill_long [OF a(1,2) long cp [unfolded long] z, of cfg]
        using A fin long by simp
    next
      case short
      show ?thesis
        unfolding onFill_short [OF a(1,2) short cp [unfolded short] z, of cfg]
        using A fin short by simp
    qed
  qed
  have dep: "onFill pf om cfg now t ev' = onFill pf om cfg now t ev"
    if b: "order_digest ev' = order_digest ev"
      "normalizeStreamPrice pf (price ev') = normalizeStreamPrice pf (price ev)"
      "normalizeStreamPrice pf (filled_qty ev') = normalizeStreamPrice pf (filled_qty ev)"
      "normalizeStreamPrice pf (remaining_qty ev') = normalizeStreamPrice pf (remaining_qty ev)"
    by (simp only: onFill_def b)
  have gen: "hd (snd (onFill pf om cfg now t ev)) =
            LogEntryFilled (id_pos p) (side p)
              (normalizeStreamPrice pf (price ev))
              (normalizeStreamPrice pf (filled_qty ev))
              (normalizeStreamPrice pf (remaining_qty ev))
        \<and> (success (tpResult om) \<and> success (slResult om) \<longrightarrow>
             map_option fillPrice
               (getByEntryDigest (fst (onFill pf om cfg now t ev)) (order_digest ev))
             = Some (Some (normalizeStreamPrice pf (price ev))))"
    if a: "getByEntryDigest t (order_digest ev) = Some p" "status p = pending"
  proof -
    obtain t1 acts where cp:
      "cancelOppositePendingEntries om now t (productId p) (side p) (order_digest ev) = (t1, acts)"
      by (cases "cancelOppositePendingEntries om now t (productId p) (side p) (order_digest ev)")
    note L = cancelPass_lookup(1) [OF cp a(1)]
    have fin: "map_option fillPrice (getByEntryDigest (snd (markFilled (order_digest ev)
                 (normalizeStreamPrice pf (price ev))
                 (digest (tpResult om)) (digest (slResult om)) now t1)) (order_digest ev))
               = Some (Some (normalizeStreamPrice pf (price ev)))"
      using L markFilled_lookup by (auto simp: markedCancelled_def)
    show ?thesis
    proof (cases "side p")
      case long
      show ?thesis
        unfolding onFill_long [OF a(1,2) long cp [unfolded long]
            refl [of "normalizeStreamPrice pf (price ev)"], of cfg]
        using fin long by simp
    next
      case short
      show ?thesis
        unfolding onFill_short [OF a(1,2) short cp [unfolded short]
            refl [of "normalizeStreamPrice pf (price ev)"], of cfg]
        using fin short by simp
    qed
  qed
  show ?thesis
    using norm bbo dep gen fill by blast
qed


theorem C10_normalize_total_witness:
  "(\<lambda>s. if s = ''2500000000000000000000'' then Finite 2500000000000000000000 else NaN)
      ''2500000000000000000000'' = Finite 2500000000000000000000
   \<and> normalizeStreamPrice
        (\<lambda>s. if s = ''2500000000000000000000'' then Finite 2500000000000000000000 else NaN)
        (StringValue ''2500000000000000000000'') = 2500
   \<and> (\<lambda>s. if s = ''2500000000000000000000'' then Finite 2500000000000000000000 else NaN)
        ''n/a'' \<in> {NaN, PosInfinity, NegInfinity}
   \<and> normalizeStreamPrice
        (\<lambda>s. if s = ''2500000000000000000000'' then Finite 2500000000000000000000 else NaN)
        (StringValue ''n/a'') = 0
   \<and> normalizeStreamPrice
        (\<lambda>s. if s = ''2500000000000000000000'' then Finite 2500000000000000000000 else NaN)
        (NumberValue NaN) = 0
   \<and> getByEntryDigest (runOps [CreatePosition 4 100 long 1 ''e'' 0]) ''e''
     = Some \<lparr>id_pos = (4, long, 100), productId = 4, level = 100, side = long,
          size_pos = 1, entryOrderDigest = Some ''e'', tpOrderDigest = None,
          slOrderDigest = None, status = pending, fillPrice = None,
          createdAt = 0, updatedAt = 0\<rparr>
   \<and> onFill
        (\<lambda>s. if s = ''2500000000000000000000'' then Finite 2500000000000000000000 else NaN)
        \<lparr>cancelOrder = (\<lambda>d pId. True), tpResult = \<lparr>digest = ''tp'', success = True\<rparr>,
          slResult = \<lparr>digest = ''sl'', success = True\<rparr>\<rparr>
        \<lparr>tpPercent = 1.5, slPercent = 0.75\<rparr> 5
        (runOps [CreatePosition 4 100 long 1 ''e'' 0])
        \<lparr>order_digest = ''e'', price = NumberValue NaN,
          filled_qty = NumberValue (Finite 1), remaining_qty = NumberValue (Finite 0)\<rparr>
     = onFill
        (\<lambda>s. if s = ''2500000000000000000000'' then Finite 2500000000000000000000 else NaN)
        \<lparr>cancelOrder = (\<lambda>d pId. True), tpResult = \<lparr>digest = ''tp'', success = True\<rparr>,
          slResult = \<lparr>digest = ''sl'', success = True\<rparr>\<rparr>
        \<lparr>tpPercent = 1.5, slPercent = 0.75\<rparr> 5
        (runOps [CreatePosition 4 100 long 1 ''e'' 0])
        \<lparr>order_digest = ''e'', price = StringValue ''n/a'',
          filled_qty = NumberValue (Finite 1), remaining_qty = NumberValue (Finite 0)\<rparr>
   \<and> hd (snd (onFill
        (\<lambda>s. if s = ''2500000000000000000000'' then Finite 2500000000000000000000 else NaN)
        \<lparr>cancelOrder = (\<lambda>d pId. True), tpResult = \<lparr>digest = ''tp'', success = True\<rparr>,
          slResult = \<lparr>digest = ''sl'', success = True\<rparr>\<rparr>
        \<lparr>tpPercent = 1.5, slPercent = 0.75\<rparr> 5
        (runOps [CreatePosition 4 100 long 1 ''e'' 0])
        \<lparr>order_digest = ''e'', price = StringValue ''n/a'',
          filled_qty = NumberValue (Finite 1), remaining_qty = NumberValue (Finite 0)\<rparr>))
     = LogEntryFilled (4, long, 100) long 0 1 0
   \<and> filter isPlaceTakeProfit (snd (onFill
        (\<lambda>s. if s = ''2500000000000000000000'' then Finite 2500000000000000000000 else NaN)
        \<lparr>cancelOrder = (\<lambda>d pId. True), tpResult = \<lparr>digest = ''tp'', success = True\<rparr>,
          slResult = \<lparr>digest = ''sl'', success = True\<rparr>\<rparr>
        \<lparr>tpPercent = 1.5, slPercent = 0.75\<rparr> 5
        (runOps [CreatePosition 4 100 long 1 ''e'' 0])
        \<lparr>order_digest = ''e'', price = StringValue ''n/a'',
          filled_qty = NumberValue (Finite 1), remaining_qty = NumberValue (Finite 0)\<rparr>))
     = [CallPlaceTakeProfit 4 0 0 (- 1) True]
   \<and> map_option fillPrice (getByEntryDigest (fst (onFill
        (\<lambda>s. if s = ''2500000000000000000000'' then Finite 2500000000000000000000 else NaN)
        \<lparr>cancelOrder = (\<lambda>d pId. True), tpResult = \<lparr>digest = ''tp'', success = True\<rparr>,
          slResult = \<lparr>digest = ''sl'', success = True\<rparr>\<rparr>
        \<lparr>tpPercent = 1.5, slPercent = 0.75\<rparr> 5
        (runOps [CreatePosition 4 100 long 1 ''e'' 0])
        \<lparr>order_digest = ''e'', price = StringValue ''n/a'',
          filled_qty = NumberValue (Finite 1), remaining_qty = NumberValue (Finite 0)\<rparr>)) ''e'')
     = Some (Some 0)"
  using C10_normalize_total
    [where pf = "\<lambda>s. if s = ''2500000000000000000000'' then Finite 2500000000000000000000 else NaN"
       and x = 2500000000000000000000 and s = "''2500000000000000000000''"]
    C10_normalize_total
    [where pf = "\<lambda>s. if s = ''2500000000000000000000'' then Finite 2500000000000000000000 else NaN"
       and s = "''n/a''" and t = "runOps [CreatePosition 4 100 long 1 ''e'' 0]"
       and ev = "\<lparr>order_digest = ''e'', price = StringValue ''n/a'',
          filled_qty = NumberValue (Finite 1), remaining_qty = NumberValue (Finite 0)\<rparr>"
       and ev' = "\<lparr>order_digest = ''e'', price = NumberValue NaN,
          filled_qty = NumberValue (Finite 1), remaining_qty = NumberValue (Finite 0)\<rparr>"
       and p = "\<lparr>id_pos = (4, long, 100), productId = 4, level = 100, side = long,
          size_pos = 1, entryOrderDigest = Some ''e'', tpOrderDigest = None,
          slOrderDigest = None, status = pending, fillPrice = None,
          createdAt = 0, updatedAt = 0\<rparr>"
       and om = "\<lparr>cancelOrder = (\<lambda>d pId. True), tpResult = \<lparr>digest = ''tp'', success = True\<rparr>,
          slResult = \<lparr>digest = ''sl'', success = True\<rparr>\<rparr>"
       and cfg = "\<lparr>tpPercent = 1.5, slPercent = 0.75\<rparr>" and now = 5]
  by (simp add: runOps_def emptyTracker_def createPosition_def getByEntryDigest_def Let_def)

text \<open>
  Not every quantity field of a stream event is normalized: the \<open>position_change\<close>
  callback passes the event's \<open>amount\<close> on as it arrived. Two amounts that
  \<open>normalizeStreamPrice\<close> both takes to 0 are logged as the two different strings.
\<close>

theorem C10_normalize_total_counterexample:
  "onPositionChange \<lparr>product_id_pc = 4, amount = StringValue ''n/a'', reason = ''fill''\<rparr>
     = LogPositionChange 4 (StringValue ''n/a'') ''fill''
   \<and> onPositionChange \<lparr>product_id_pc = 4, amount = StringValue ''n/a'', reason = ''fill''\<rparr>
     \<noteq> onPositionChange \<lparr>product_id_pc = 4, amount = StringValue ''?'', reason = ''fill''\<rparr>
   \<and> normalizeStreamPrice (\<lambda>s. NaN) (StringValue ''n/a'') = 0
   \<and> normalizeStreamPrice (\<lambda>s. NaN) (StringValue ''?'') = 0"
  by (simp add: onPositionChange_def normalizeStreamPrice_def)

section \<open>Level calculator: counter and loops\<close>

lemma roundHalfEven_of_int: "roundHalfEven (of_int z) = z"
  by (simp add: roundHalfEven_def)

lemma fl_of_nat:
  assumes "n \<le> 2 ^ 53"
  shows "fl (of_nat n) = Finite (of_nat n)"
proof (cases "n = 0")
  case True
  then show ?thesis by (simp add: fl_def)
next
  case False
  then have pos: "0 < int n" by simp
  define b where "b = bitlen (int n)"
  have bnd: "2 ^ nat (b - 1) \<le> int n" "int n < 2 ^ nat b"
    using bitlen_bounds [OF pos] by (simp_all add: b_def)
  have b1: "1 \<le> b"
  proof (rule ccontr)
    assume "\<not> 1 \<le> b"
    then have "nat b = 0" by simp
    with bnd(2) pos show False by simp
  qed
  have "int n \<le> int (2 ^ 53)" using assms by (simp only: of_nat_le_iff)
  then have n53: "int n \<le> 2 ^ 53" by simp
  have "(2::int) ^ nat (b - 1) \<le> 2 ^ 53"
    using bnd(1) n53 by linarith
  then have "nat (b - 1) \<le> 53"
    using power_le_imp_le_exp [of "2::int" "nat (b - 1)" 53] by simp
  then have b54: "b \<le> 54" by simp
  have il: "ilog2 (real n) = b - 1"
    using False by (simp add: ilog2_def b_def)
  have e: "max (ilog2 (real n) - 52) (- 1074) = b - 53"
    using il b1 by simp
  have y: "of_int (roundHalfEven (real n / pow2 (b - 53))) * pow2 (b - 53) = real n"
  proof (cases "b \<le> 53")
    case True
    then have p: "pow2 (b - 53) = 1 / 2 ^ nat (53 - b)"
      by (cases "b = 53") (simp_all add: pow2_def)
    have "real n / pow2 (b - 53) = of_int (int n * 2 ^ nat (53 - b))"
      by (simp add: p)
    then have "roundHalfEven (real n / pow2 (b - 53)) = int n * 2 ^ nat (53 - b)"
      by (simp only: roundHalfEven_of_int)
    then show ?thesis by (simp add: p)
  next
    case False
    then have b: "b = 54" using b54 by simp
    then have "(2::int) ^ 53 \<le> int n" using bnd(1) by simp
    then have "int n = 2 ^ 53" using n53 by linarith
    then have "int n = int (2 ^ 53)" by simp
    then have n: "n = 2 ^ 53" by (simp only: of_nat_eq_iff)
    have "real n / pow2 (b - 53) = of_int (2 ^ 52)"
      by (simp add: b n pow2_def)
    then have "roundHalfEven (real n / pow2 (b - 53)) = 2 ^ 52"
      by (simp only: roundHalfEven_of_int)
    then show ?thesis by (simp add: b n pow2_def)
  qed
  have small: "\<not> (real n \<ge> 2 ^ 1024)"
  proof -
    have "real n \<le> real (2 ^ 53)" using assms by (simp only: of_nat_le_iff)
    then have "real n \<le> 2 ^ 53" by simp
    moreover have "(2::real) ^ 53 < 2 ^ 1024" by simp
    ultimately show ?thesis by linarith
  qed
  show ?thesis
    using False small by (simp add: fl_def Let_def e y)
qed


lemma jsLe_counter:
  assumes "c \<noteq> PosInfinity" "1 \<le> k"
  shows "jsLe (Finite (real k)) c \<longleftrightarrow> k \<le> levelCount c"
proof (cases c)
  case (Finite x)
  have "real k \<le> x \<longleftrightarrow> int k \<le> \<lfloor>x\<rfloor>" by (simp add: le_floor_iff)
  also have "\<dots> \<longleftrightarrow> k \<le> nat \<lfloor>x\<rfloor>" using assms(2) by linarith
  finally show ?thesis using Finite by simp
qed (use assms in simp_all)

lemma counter_step:
  assumes "k < 2 ^ 53"
  shows "fadd (Finite (real k)) (Finite 1) = Finite (real (Suc k))"
proof -
  have "Suc k \<le> 2 ^ 53" using assms by simp
  then have "fl (real (Suc k)) = Finite (real (Suc k))" by (rule fl_of_nat)
  moreover have "real k + 1 = real (Suc k)" by simp
  ultimately show ?thesis by (simp only: fadd.simps)
qed

lemma showNumber_counter: "showNumber (Finite (real k)) = showNat k"
  by simp

lemma resistanceLoop_eq:
  assumes "c \<noteq> PosInfinity" "levelCount c < 2 ^ 53" "1 \<le> k" "k \<le> Suc (levelCount c)"
  shows "resistanceLoop P R c (Finite (real k)) acc =
           Some (acc @ map (resistanceLevel P R) [k..<Suc (levelCount c)])"
  using assms(3,4)
proof (induction "Suc (levelCount c) - k" arbitrary: k acc)
  case 0
  then have k: "k = Suc (levelCount c)" by simp
  then have "\<not> k \<le> levelCount c" by simp
  then have "\<not> jsLe (Finite (real k)) c"
    using jsLe_counter [OF assms(1) 0(2)] by blast
  then show ?case by (subst resistanceLoop.simps) (simp add: k)
next
  case (Suc n)
  then have k: "k \<le> levelCount c" by simp
  then have le: "jsLe (Finite (real k)) c"
    using jsLe_counter [OF assms(1) Suc(3)] by blast
  have st: "fadd (Finite (real k)) (Finite 1) = Finite (real (Suc k))"
    using k assms(2) by (intro counter_step) simp
  have ih: "resistanceLoop P R c (Finite (real (Suc k))) acc' =
           Some (acc' @ map (resistanceLevel P R) [Suc k..<Suc (levelCount c)])" for acc'
    using Suc.hyps(1) [of "Suc k" acc'] Suc.hyps(2) k by simp
  have up: "[k..<Suc (levelCount c)] = k # [Suc k..<Suc (levelCount c)]"
    using k by (simp add: upt_conv_Cons)
  show ?case
    by (subst resistanceLoop.simps)
      (simp only: le if_True Let_def st ih up showNumber_counter list.map append_assoc
        append_Cons append_Nil resistanceLevel_def roundedPrice_def)
qed

lemma supportLoop_eq:
  assumes "c \<noteq> PosInfinity" "levelCount c < 2 ^ 53" "1 \<le> k" "k \<le> Suc (levelCount c)"
  shows "supportLoop P R c (Finite (real k)) acc =
           Some (acc @ map (supportLevel P R) [k..<Suc (levelCount c)])"
  using assms(3,4)
proof (induction "Suc (levelCount c) - k" arbitrary: k acc)
  case 0
  then have k: "k = Suc (levelCount c)" by simp
  then have "\<not> k \<le> levelCount c" by simp
  then have "\<not> jsLe (Finite (real k)) c"
    using jsLe_counter [OF assms(1) 0(2)] by blast
  then show ?case by (subst supportLoop.simps) (simp add: k)
next
  case (Suc n)
  then have k: "k \<le> levelCount c" by simp
  then have le: "jsLe (Finite (real k)) c"
    using jsLe_counter [OF assms(1) Suc(3)] by blast
  have st: "fadd (Finite (real k)) (Finite 1) = Finite (real (Suc k))"
    using k assms(2) by (intro counter_step) simp
  have ih: "supportLoop P R c (Finite (real (Suc k))) acc' =
           Some (acc' @ map (supportLevel P R) [Suc k..<Suc (levelCount c)])" for acc'
    using Suc.hyps(1) [of "Suc k" acc'] Suc.hyps(2) k by simp
  have up: "[k..<Suc (levelCount c)] = k # [Suc k..<Suc (levelCount c)]"
    using k by (simp add: upt_conv_Cons)
  show ?case
    by (subst supportLoop.simps)
      (simp only: le if_True Let_def st ih up showNumber_counter list.map append_assoc
        append_Cons append_Nil supportLevel_def roundedPrice_def)
qed

lemma calculatePivotLevels_eq:
  assumes "countsInRange r s"
  shows "calculatePivotLevels H L C r s =
     Some (map (resistanceLevel (pivotOf H L C) (fsub H L)) [1..<Suc (levelCount r)]
           @ map (supportLevel (pivotOf H L C) (fsub H L)) [1..<Suc (levelCount s)])"
proof -
  have b: "(2::nat) ^ 32 \<le> 2 ^ 53" by simp
  have r: "r \<noteq> PosInfinity" "levelCount r < 2 ^ 53"
    and s: "s \<noteq> PosInfinity" "levelCount s < 2 ^ 53"
    using assms b by (auto simp: countsInRange_def)
  have a: "resistanceLoop P R r (Finite 1) acc =
             Some (acc @ map (resistanceLevel P R) [1..<Suc (levelCount r)])" for P R acc
    using resistanceLoop_eq [OF r, of 1 P R acc] by simp
  have b: "supportLoop P R s (Finite 1) acc =
             Some (acc @ map (supportLevel P R) [1..<Suc (levelCount s)])" for P R acc
    using supportLoop_eq [OF s, of 1 P R acc] by simp
  show ?thesis
    unfolding calculatePivotLevels_def Let_def pivotOf_def [symmetric]
    by (simp only: a b option.case append_Nil)
qed


lemma fl_not_NaN: "fl x \<noteq> NaN"
  by (simp add: fl_def Let_def)

lemma counter_not_NaN: "i \<noteq> NaN \<Longrightarrow> fadd i (Finite 1) \<noteq> NaN"
  by (cases i) (simp_all add: fl_not_NaN)

lemma jsLe_Infinity: "jsLe i PosInfinity \<longleftrightarrow> i \<noteq> NaN"
  by (cases i) simp_all

lemma resistanceLoop_Infinity:
  assumes "i \<noteq> NaN"
  shows "resistanceLoop P R PosInfinity i acc = None"
proof -
  have "\<not> (c = PosInfinity \<and> i \<noteq> NaN)" if "resistanceLoop P R c i acc = Some y" for c y
  proof (rule resistanceLoop.raw_induct
      [where P = "\<lambda>_ _ c i _ _. \<not> (c = PosInfinity \<and> i \<noteq> NaN)", OF _ that])
    fix f :: "jsnumber \<Rightarrow> jsnumber \<Rightarrow> jsnumber \<Rightarrow> jsnumber \<Rightarrow> PivotLevel list \<Rightarrow> PivotLevel list option"
    fix pivot range' c i levels y
    assume ih: "\<And>pivot range' c i levels y. f pivot range' c i levels = Some y \<Longrightarrow>
                  \<not> (c = PosInfinity \<and> i \<noteq> NaN)"
    assume eq: "(if jsLe i c then
        let price = fadd pivot (fmul i range')
        in f pivot range' c (fadd i (Finite 1))
             (levels @ [\<lparr>price_lvl = fdiv (jsRound (fmul price (Finite 10000))) (Finite 10000),
                         side_lvl = short,
                         pivotType = CHR ''R'' # showNumber i\<rparr>])
      else Some levels) = Some y"
    show "\<not> (c = PosInfinity \<and> i \<noteq> NaN)"
    proof
      assume a: "c = PosInfinity \<and> i \<noteq> NaN"
      then have "jsLe i c" by (simp add: jsLe_Infinity)
      then obtain acc' where "f pivot range' c (fadd i (Finite 1)) acc' = Some y"
        using eq by (simp add: Let_def)
      then have "\<not> (c = PosInfinity \<and> fadd i (Finite 1) \<noteq> NaN)" by (rule ih)
      then show False using a counter_not_NaN by blast
    qed
  qed
  then show ?thesis using assms by (cases "resistanceLoop P R PosInfinity i acc") auto
qed

lemma supportLoop_Infinity:
  assumes "i \<noteq> NaN"
  shows "supportLoop P R PosInfinity i acc = None"
proof -
  have "\<not> (c = PosInfinity \<and> i \<noteq> NaN)" if "supportLoop P R c i acc = Some y" for c y
  proof (rule supportLoop.raw_induct
      [where P = "\<lambda>_ _ c i _ _. \<not> (c = PosInfinity \<and> i \<noteq> NaN)", OF _ that])
    fix f :: "jsnumber \<Rightarrow> jsnumber \<Rightarrow> jsnumber \<Rightarrow> jsnumber \<Rightarrow> PivotLevel list \<Rightarrow> PivotLevel list option"
    fix pivot range' c i levels y
    assume ih: "\<And>pivot range' c i levels y. f pivot range' c i levels = Some y \<Longrightarrow>
                  \<not> (c = PosInfinity \<and> i \<noteq> NaN)"
    assume eq: "(if jsLe i c then
        let price = fsub pivot (fmul i range')
        in f pivot range' c (fadd i (Finite 1))
             (levels @ [\<lparr>price_lvl = fdiv (jsRound (fmul price (Finite 10000))) (Finite 10000),
                         side_lvl = long,
                         pivotType = CHR ''S'' # showNumber i\<rparr>])
      else Some levels) = Some y"
    show "\<not> (c = PosInfinity \<and> i \<noteq> NaN)"
    proof
      assume a: "c = PosInfinity \<and> i \<noteq> NaN"
      then have "jsLe i c" by (simp add: jsLe_Infinity)
      then obtain acc' where "f pivot range' c (fadd i (Finite 1)) acc' = Some y"
        using eq by (simp add: Let_def)
      then have "\<not> (c = PosInfinity \<and> fadd i (Finite 1) \<noteq> NaN)" by (rule ih)
      then show False using a counter_not_NaN by blast
    qed
  qed
  then show ?thesis using assms by (cases "supportLoop P R PosInfinity i acc") auto
qed

lemma calculatePivotLevels_Infinity:
  "calculatePivotLevels H L C PosInfinity s = None"
  "r \<noteq> PosInfinity \<Longrightarrow> levelCount r < 2 ^ 53 \<Longrightarrow> calculatePivotLevels H L C r PosInfinity = None"
proof -
  show "calculatePivotLevels H L C PosInfinity s = None"
    by (simp add: calculatePivotLevels_def Let_def resistanceLoop_Infinity)
  assume r: "r \<noteq> PosInfinity" "levelCount r < 2 ^ 53"
  have a: "resistanceLoop P R r (Finite 1) acc =
             Some (acc @ map (resistanceLevel P R) [1..<Suc (levelCount r)])" for P R acc
    using resistanceLoop_eq [OF r, of 1 P R acc] by simp
  show "calculatePivotLevels H L C r PosInfinity = None"
    unfolding calculatePivotLevels_def Let_def
    by (simp only: a option.case) (simp add: supportLoop_Infinity)
qed

section \<open>Double arithmetic: the rounding error\<close>

lemma pow2_powi: "pow2 e = 2 powi e"
  by (simp add: pow2_def power_int_def inverse_eq_divide power_one_over)

lemma pow2_pos: "0 < pow2 e"
  by (simp add: pow2_def)

lemma pow2_add: "pow2 (a + b) = pow2 a * pow2 b"
  by (simp add: pow2_powi power_int_add)

lemma pow2_nat: "0 \<le> e \<Longrightarrow> pow2 e = 2 ^ nat e"
  by (simp add: pow2_def)

lemma pow2_neg: "pow2 (- e) = 1 / pow2 e"
  by (simp add: pow2_powi power_int_minus inverse_eq_divide)

lemma ilog2_bounds:
  assumes "0 < a"
  shows "pow2 (ilog2 a) \<le> a \<and> a < pow2 (ilog2 a + 1)"
proof (cases "1 \<le> a")
  case True
  define z where "z = \<lfloor>a\<rfloor>"
  have z: "0 < z" using True by (simp add: z_def)
  define b where "b = bitlen z"
  have bnd: "2 ^ nat (b - 1) \<le> z" "z < 2 ^ nat b"
    using bitlen_bounds [OF z] by (simp_all add: b_def)
  have b1: "1 \<le> b"
  proof (rule ccontr)
    assume "\<not> 1 \<le> b"
    then have "nat b = 0" by simp
    with bnd(2) z show False by simp
  qed
  have il: "ilog2 a = b - 1" using True by (simp add: ilog2_def b_def z_def)
  have "real_of_int (2 ^ nat (b - 1)) \<le> real_of_int z" using bnd(1) by (simp only: of_int_le_iff)
  also have "\<dots> \<le> a" by (simp add: z_def)
  finally have "(2::real) ^ nat (b - 1) \<le> a" by simp
  then have lo: "pow2 (b - 1) \<le> a" using b1 by (simp add: pow2_nat)
  have "z + 1 \<le> 2 ^ nat b" using bnd(2) by simp
  then have "real_of_int (z + 1) \<le> real_of_int (2 ^ nat b)" by (simp only: of_int_le_iff)
  moreover have "a < real_of_int (z + 1)" by (simp add: z_def)
  ultimately have "a < real_of_int (2 ^ nat b)" by linarith
  then have "a < (2::real) ^ nat b" by simp
  then have hi: "a < pow2 b" using b1 by (simp add: pow2_nat)
  show ?thesis using lo hi by (simp add: il)
next
  case False
  then have a1: "a < 1" by simp
  define y where "y = 1 / a"
  have y1: "1 < y" using assms a1 by (simp add: y_def)
  define z where "z = \<lceil>y\<rceil> - 1"
  have z: "0 < z" using y1 by (simp add: z_def less_ceiling_iff)
  define b where "b = bitlen z"
  have bnd: "2 ^ nat (b - 1) \<le> z" "z < 2 ^ nat b"
    using bitlen_bounds [OF z] by (simp_all add: b_def)
  have b1: "1 \<le> b"
  proof (rule ccontr)
    assume "\<not> 1 \<le> b"
    then have "nat b = 0" by simp
    with bnd(2) z show False by simp
  qed
  have il: "ilog2 a = - b" using False by (simp add: ilog2_def b_def z_def y_def)
  have zy: "real_of_int z < y" "y \<le> real_of_int z + 1"
    by (simp_all add: z_def ceiling_correct)
  have "real_of_int (2 ^ nat (b - 1)) \<le> real_of_int z" using bnd(1) by (simp only: of_int_le_iff)
  then have "(2::real) ^ nat (b - 1) \<le> real_of_int z" by simp
  then have "(2::real) ^ nat (b - 1) < y" using zy(1) by linarith
  then have lo: "pow2 (b - 1) < y" using b1 by (simp add: pow2_nat)
  have "z + 1 \<le> 2 ^ nat b" using bnd(2) by simp
  then have "real_of_int (z + 1) \<le> real_of_int (2 ^ nat b)" by (simp only: of_int_le_iff)
  then have "real_of_int z + 1 \<le> (2::real) ^ nat b" by simp
  then have "y \<le> (2::real) ^ nat b" using zy(2) by linarith
  then have hi: "y \<le> pow2 b" using b1 by (simp add: pow2_nat)
  have p: "pow2 (- b) = 1 / pow2 b" "pow2 (1 - b) = 1 / pow2 (b - 1)"
    using pow2_neg [of b] pow2_neg [of "b - 1"] by simp_all
  have "1 / pow2 b \<le> a"
    using hi pow2_pos [of b] assms by (simp add: y_def field_simps)
  moreover have "a < 1 / pow2 (b - 1)"
    using lo pow2_pos [of "b - 1"] assms by (simp add: y_def field_simps)
  ultimately show ?thesis by (simp add: il p)
qed

lemma roundHalfEven_err: "\<bar>of_int (roundHalfEven q) - q\<bar> \<le> 1 / 2"
  unfolding roundHalfEven_def Let_def by (auto simp: abs_le_iff)

lemma fl_err:
  assumes "\<bar>x\<bar> \<le> 10 ^ 300"
  shows "\<exists>v. fl x = Finite v \<and> \<bar>v - x\<bar> \<le> \<bar>x\<bar> / 2 ^ 53 + 1 / 2 ^ 1075"
proof (cases "x = 0")
  case True
  then show ?thesis by (simp add: fl_def)
next
  case False
  define a where "a = \<bar>x\<bar>"
  have a: "0 < a" using False by (simp add: a_def)
  define e where "e = max (ilog2 a - 52) (- 1074)"
  define y where "y = of_int (roundHalfEven (a / pow2 e)) * pow2 e"
  have pe: "0 < pow2 e" by (rule pow2_pos)
  have "\<bar>of_int (roundHalfEven (a / pow2 e)) - a / pow2 e\<bar> * pow2 e \<le> 1 / 2 * pow2 e"
    using roundHalfEven_err [of "a / pow2 e"] pe by (intro mult_right_mono) simp_all
  moreover have "\<bar>of_int (roundHalfEven (a / pow2 e)) - a / pow2 e\<bar> * pow2 e = \<bar>y - a\<bar>"
  proof -
    have "y - a = (of_int (roundHalfEven (a / pow2 e)) - a / pow2 e) * pow2 e"
      using pe by (simp add: y_def field_simps)
    then show ?thesis using pe by (simp add: abs_mult)
  qed
  ultimately have ya: "\<bar>y - a\<bar> \<le> pow2 e / 2" by simp
  have pb: "pow2 e \<le> a / 2 ^ 52 + 1 / 2 ^ 1074"
  proof (cases "- 1074 \<le> ilog2 a - 52")
    case True
    then have "e = ilog2 a + (- 52)" by (simp add: e_def)
    then have "pow2 e = pow2 (ilog2 a) * pow2 (- 52)" by (simp only: pow2_add)
    also have "\<dots> \<le> a * pow2 (- 52)"
      using ilog2_bounds [OF a] pow2_pos [of "- 52"] by (intro mult_right_mono) simp_all
    also have "\<dots> = a / 2 ^ 52" by (simp add: pow2_def)
    finally show ?thesis by simp
  next
    case False
    then have "e = - 1074" by (simp add: e_def)
    then have "pow2 e = 1 / 2 ^ 1074" by (simp add: pow2_def)
    then show ?thesis using a by simp
  qed
  have err: "\<bar>y - a\<bar> \<le> a / 2 ^ 53 + 1 / 2 ^ 1075"
  proof -
    have "pow2 e / 2 \<le> (a / 2 ^ 52 + 1 / 2 ^ 1074) / 2" using pb by simp
    also have "\<dots> = a / 2 ^ 53 + 1 / 2 ^ 1075" by simp
    finally show ?thesis using ya by linarith
  qed
  have a300: "a \<le> 10 ^ 300" using assms by (simp add: a_def)
  have small: "\<not> (y \<ge> 2 ^ 1024)"
  proof -
    have "a / 2 ^ 53 \<le> a" using a by (simp add: field_simps)
    moreover have "(1::real) / 2 ^ 1075 \<le> 1" by simp
    ultimately have "y \<le> 2 * 10 ^ 300 + 1" using err a300 by linarith
    moreover have "(2::real) * 10 ^ 300 + 1 < 2 ^ 1024" by simp
    ultimately show ?thesis by linarith
  qed
  have flx: "fl x = Finite (if x < 0 then - y else y)"
    using False small by (simp add: fl_def Let_def a_def [symmetric] e_def [symmetric] y_def [symmetric])
  have "\<bar>(if x < 0 then - y else y) - x\<bar> = \<bar>y - a\<bar>"
    by (auto simp: a_def)
  then show ?thesis using flx err by (simp add: a_def)
qed

subsection \<open>The error of a level price\<close>

text \<open>
  Each operation on values of bounded magnitude adds a relative error of at most
  \<open>1.2 * 10^-16\<close>. For highs, lows and closes of magnitude at most \<open>10^6\<close> and a level
  index up to 1000 the errors add up to less than \<open>3 * 10^-6\<close> on top of the
  \<open>0.00005\<close> of \<open>Math.round\<close>.
\<close>

lemma fl_errM:
  assumes "\<bar>x\<bar> \<le> M" "1 \<le> M" "M \<le> 10 ^ 300"
  shows "\<exists>v. fl x = Finite v \<and> \<bar>v - x\<bar> \<le> M * (12 / 100000000000000000)"
proof -
  have "\<bar>x\<bar> \<le> 10 ^ 300" using assms by linarith
  then obtain v where v: "fl x = Finite v" "\<bar>v - x\<bar> \<le> \<bar>x\<bar> / 2 ^ 53 + 1 / 2 ^ 1075"
    using fl_err by blast
  have "\<bar>x\<bar> / 2 ^ 53 \<le> M / 2 ^ 53" using assms(1) by (simp add: divide_right_mono)
  also have "\<dots> \<le> M * (112 / 10 ^ 18)" using assms(2) by simp
  finally have a: "\<bar>x\<bar> / 2 ^ 53 \<le> M * (112 / 10 ^ 18)" .
  have "(1::real) / 2 ^ 1075 \<le> 1 * (1 / 10 ^ 18)" by simp
  also have "\<dots> \<le> M * (1 / 10 ^ 18)" using assms(2) by (intro mult_right_mono) simp_all
  finally have b: "(1::real) / 2 ^ 1075 \<le> M * (1 / 10 ^ 18)" .
  have "\<bar>v - x\<bar> \<le> M * (112 / 10 ^ 18) + M * (1 / 10 ^ 18)" using v(2) a b by linarith
  also have "\<dots> \<le> M * (12 / 100000000000000000)" using assms(2) by simp
  finally show ?thesis using v(1) by blast
qed

lemma pivot_err:
  assumes "\<bar>H\<bar> \<le> 1000000" "\<bar>L\<bar> \<le> 1000000" "\<bar>C\<bar> \<le> 1000000"
  shows "\<exists>P'. pivotOf (Finite H) (Finite L) (Finite C) = Finite P'
            \<and> \<bar>P' - (H + L + C) / 3\<bar> \<le> 1 / 1000000000"
proof -
  have "\<bar>H + L\<bar> \<le> 2000000" using assms by linarith
  then obtain s1 where s1: "fl (H + L) = Finite s1" "\<bar>s1 - (H + L)\<bar> \<le> 2000000 * (12 / 100000000000000000)"
    using fl_errM [of "H + L" 2000000] by auto
  have "\<bar>s1 + C\<bar> \<le> 4000000" using s1(2) assms by linarith
  then obtain s2 where s2: "fl (s1 + C) = Finite s2" "\<bar>s2 - (s1 + C)\<bar> \<le> 4000000 * (12 / 100000000000000000)"
    using fl_errM [of "s1 + C" 4000000] by auto
  have "\<bar>s2 / 3\<bar> \<le> 2000000" using s1(2) s2(2) assms by linarith
  then obtain P' where P': "fl (s2 / 3) = Finite P'" "\<bar>P' - s2 / 3\<bar> \<le> 2000000 * (12 / 100000000000000000)"
    using fl_errM [of "s2 / 3" 2000000] by auto
  have "pivotOf (Finite H) (Finite L) (Finite C) = Finite P'"
    by (simp add: pivotOf_def s1(1) s2(1) P'(1))
  moreover have "\<bar>P' - (H + L + C) / 3\<bar> \<le> 1 / 1000000000"
  proof -
    have "\<bar>s2 - (H + L + C)\<bar> \<le> 72 / 100000000000" using s1(2) s2(2) by linarith
    moreover have "(H + L + C) / 3 = H / 3 + L / 3 + C / 3" by (simp add: add_divide_distrib)
    ultimately show ?thesis using P'(2) by linarith
  qed
  ultimately show ?thesis by blast
qed

lemma range_err:
  assumes "\<bar>H\<bar> \<le> 1000000" "\<bar>L\<bar> \<le> 1000000"
  shows "\<exists>R'. fsub (Finite H) (Finite L) = Finite R' \<and> \<bar>R' - (H - L)\<bar> \<le> 24 / 100000000000"
proof -
  have "\<bar>H + - L\<bar> \<le> 2000000" using assms by linarith
  then obtain R' where R': "fl (H + - L) = Finite R'" "\<bar>R' - (H + - L)\<bar> \<le> 2000000 * (12 / 100000000000000000)"
    using fl_errM [of "H + - L" 2000000] by auto
  have "fsub (Finite H) (Finite L) = Finite R'"
    using R'(1) by (simp add: fsub_def)
  moreover have "\<bar>R' - (H - L)\<bar> \<le> 24 / 100000000000" using R'(2) by linarith
  ultimately show ?thesis by blast
qed

lemma mul_err:
  assumes "\<bar>R' - R\<bar> \<le> 24 / 100000000000" "\<bar>R\<bar> \<le> 2000000" "i \<le> 1000"
  shows "\<exists>m. fmul (Finite (real i)) (Finite R') = Finite m
           \<and> \<bar>m - real i * R\<bar> \<le> 6 / 10000000"
proof -
  have i: "0 \<le> real i" "real i \<le> 1000" using assms(3) by simp_all
  have R'b: "\<bar>R'\<bar> \<le> 2000001" using assms(1,2) by linarith
  have "\<bar>real i * R'\<bar> = real i * \<bar>R'\<bar>" by (simp add: abs_mult)
  also have "\<dots> \<le> 1000 * 2000001"
    using i R'b by (intro mult_mono) simp_all
  finally have "\<bar>real i * R'\<bar> \<le> 3000000000" by simp
  then obtain m where m: "fl (real i * R') = Finite m"
      "\<bar>m - real i * R'\<bar> \<le> 3000000000 * (12 / 100000000000000000)"
    using fl_errM [of "real i * R'" 3000000000] by auto
  have "\<bar>real i * R' - real i * R\<bar> = real i * \<bar>R' - R\<bar>"
    by (simp add: abs_mult right_diff_distrib [symmetric])
  also have "\<dots> \<le> 1000 * (24 / 100000000000)"
    using i assms(1) by (intro mult_mono) simp_all
  finally have d: "\<bar>real i * R' - real i * R\<bar> \<le> 1000 * (24 / 100000000000)" .
  have "\<bar>m - real i * R\<bar> \<le> 6 / 10000000" using m(2) d by linarith
  then show ?thesis using m(1) by simp
qed

lemma sum_err:
  assumes "\<bar>P' - P\<bar> \<le> 1 / 1000000000" "\<bar>m - M\<bar> \<le> 6 / 10000000" "\<bar>P\<bar> \<le> 1000000"
    "\<bar>M\<bar> \<le> 2000000000"
  shows "\<exists>q. fadd (Finite P') (Finite m) = Finite q \<and> \<bar>q - (P + M)\<bar> \<le> 11 / 10000000"
proof -
  have "\<bar>P' + m\<bar> \<le> 4000000000" using assms by linarith
  then obtain q where q: "fl (P' + m) = Finite q" "\<bar>q - (P' + m)\<bar> \<le> 4000000000 * (12 / 100000000000000000)"
    using fl_errM [of "P' + m" 4000000000] by auto
  have "\<bar>q - (P + M)\<bar> \<le> 11 / 10000000" using q(2) assms(1,2) by linarith
  then show ?thesis using q(1) by simp
qed

lemma rounded_err:
  assumes "\<bar>q - t\<bar> \<le> 11 / 10000000" "\<bar>t\<bar> \<le> 3000000000"
  shows "\<exists>K v. roundedPrice (Finite q) = Finite v \<and> fl (of_int K / 10000) = Finite v
           \<and> \<bar>v - t\<bar> \<le> 53 / 1000000"
proof -
  have "\<bar>q * 10000\<bar> \<le> 50000000000000" using assms by linarith
  then obtain y where y: "fl (q * 10000) = Finite y"
      "\<bar>y - q * 10000\<bar> \<le> 50000000000000 * (12 / 100000000000000000)"
    using fl_errM [of "q * 10000" 50000000000000] by auto
  define K where "K = \<lfloor>y + 1 / 2\<rfloor>"
  have K: "\<bar>of_int K - y\<bar> \<le> 1 / 2" unfolding K_def by linarith
  have "\<bar>of_int K / 10000\<bar> \<le> (6000000000 :: real)" using K y(2) assms by linarith
  then obtain v where v: "fl (of_int K / 10000) = Finite v"
      "\<bar>v - of_int K / 10000\<bar> \<le> 6000000000 * (12 / 100000000000000000)"
    using fl_errM [of "of_int K / 10000" 6000000000] by auto
  have "roundedPrice (Finite q) = Finite v"
    by (simp add: roundedPrice_def y(1) K_def [symmetric] v(1))
  moreover have "\<bar>v - t\<bar> \<le> 53 / 1000000" using K y(2) v(2) assms(1) by linarith
  ultimately show ?thesis using v(1) by blast
qed
lemma level_bounds:
  assumes "\<bar>H\<bar> \<le> 1000000" "\<bar>L\<bar> \<le> 1000000" "\<bar>C\<bar> \<le> 1000000" "i \<le> 1000"
  shows "\<bar>H - L\<bar> \<le> 2000000" "\<bar>(H + L + C) / 3\<bar> \<le> 1000000"
    "\<bar>real i * (H - L)\<bar> \<le> 2000000000"
    "\<bar>(H + L + C) / 3 + real i * (H - L)\<bar> \<le> 3000000000"
    "\<bar>(H + L + C) / 3 - real i * (H - L)\<bar> \<le> 3000000000"
proof -
  show r: "\<bar>H - L\<bar> \<le> 2000000" using assms by linarith
  have d: "(H + L + C) / 3 = H / 3 + L / 3 + C / 3" by (simp add: add_divide_distrib)
  show p: "\<bar>(H + L + C) / 3\<bar> \<le> 1000000" using assms d by linarith
  have i: "0 \<le> real i" "real i \<le> 1000" using assms(4) by simp_all
  have "\<bar>real i * (H - L)\<bar> = real i * \<bar>H - L\<bar>" by (simp add: abs_mult)
  also have "\<dots> \<le> 1000 * 2000000" using i r by (intro mult_mono) simp_all
  finally show m: "\<bar>real i * (H - L)\<bar> \<le> 2000000000" by simp
  show "\<bar>(H + L + C) / 3 + real i * (H - L)\<bar> \<le> 3000000000" using p m by linarith
  show "\<bar>(H + L + C) / 3 - real i * (H - L)\<bar> \<le> 3000000000" using p m by linarith
qed

lemma resistance_price_err:
  assumes "\<bar>H\<bar> \<le> 1000000" "\<bar>L\<bar> \<le> 1000000" "\<bar>C\<bar> \<le> 1000000" "i \<le> 1000"
  shows "\<exists>K v. price_lvl (resistanceLevel (pivotOf (Finite H) (Finite L) (Finite C))
                      (fsub (Finite H) (Finite L)) i) = Finite v
           \<and> fl (of_int K / 10000) = Finite v
           \<and> \<bar>v - ((H + L + C) / 3 + real i * (H - L))\<bar> \<le> 53 / 1000000"
proof -
  note b = level_bounds [OF assms]
  obtain P' where P': "pivotOf (Finite H) (Finite L) (Finite C) = Finite P'"
      "\<bar>P' - (H + L + C) / 3\<bar> \<le> 1 / 1000000000"
    using pivot_err [OF assms(1-3)] by blast
  obtain R' where R': "fsub (Finite H) (Finite L) = Finite R'"
      "\<bar>R' - (H - L)\<bar> \<le> 24 / 100000000000"
    using range_err [OF assms(1,2)] by blast
  obtain m where m: "fmul (Finite (real i)) (Finite R') = Finite m"
      "\<bar>m - real i * (H - L)\<bar> \<le> 6 / 10000000"
    using mul_err [OF R'(2) b(1) assms(4)] by blast
  obtain q where q: "fadd (Finite P') (Finite m) = Finite q"
      "\<bar>q - ((H + L + C) / 3 + real i * (H - L))\<bar> \<le> 11 / 10000000"
    using sum_err [OF P'(2) m(2) b(2) b(3)] by blast
  obtain K v where v: "roundedPrice (Finite q) = Finite v" "fl (of_int K / 10000) = Finite v"
      "\<bar>v - ((H + L + C) / 3 + real i * (H - L))\<bar> \<le> 53 / 1000000"
    using rounded_err [OF q(2) b(4)] by blast
  have "price_lvl (resistanceLevel (pivotOf (Finite H) (Finite L) (Finite C))
                      (fsub (Finite H) (Finite L)) i) = Finite v"
    by (simp only: P'(1) R'(1) resistanceLevel_def PivotLevel.select_convs m(1) q(1) v(1))
  then show ?thesis using v(2,3) by blast
qed

lemma support_price_err:
  assumes "\<bar>H\<bar> \<le> 1000000" "\<bar>L\<bar> \<le> 1000000" "\<bar>C\<bar> \<le> 1000000" "i \<le> 1000"
  shows "\<exists>K v. price_lvl (supportLevel (pivotOf (Finite H) (Finite L) (Finite C))
                      (fsub (Finite H) (Finite L)) i) = Finite v
           \<and> fl (of_int K / 10000) = Finite v
           \<and> \<bar>v - ((H + L + C) / 3 - real i * (H - L))\<bar> \<le> 53 / 1000000"
proof -
  note b = level_bounds [OF assms]
  obtain P' where P': "pivotOf (Finite H) (Finite L) (Finite C) = Finite P'"
      "\<bar>P' - (H + L + C) / 3\<bar> \<le> 1 / 1000000000"
    using pivot_err [OF assms(1-3)] by blast
  obtain R' where R': "fsub (Finite H) (Finite L) = Finite R'"
      "\<bar>R' - (H - L)\<bar> \<le> 24 / 100000000000"
    using range_err [OF assms(1,2)] by blast
  obtain m where m: "fmul (Finite (real i)) (Finite R') = Finite m"
      "\<bar>m - real i * (H - L)\<bar> \<le> 6 / 10000000"
    using mul_err [OF R'(2) b(1) assms(4)] by blast
  have m': "\<bar>- m - - (real i * (H - L))\<bar> \<le> 6 / 10000000" using m(2) by linarith
  have M': "\<bar>- (real i * (H - L))\<bar> \<le> 2000000000" using b(3) by linarith
  obtain q where q: "fadd (Finite P') (Finite (- m)) = Finite q"
      "\<bar>q - ((H + L + C) / 3 + - (real i * (H - L)))\<bar> \<le> 11 / 10000000"
    using sum_err [OF P'(2) m' b(2) M'] by blast
  have q': "\<bar>q - ((H + L + C) / 3 - real i * (H - L))\<bar> \<le> 11 / 10000000"
    using q(2) by simp
  obtain K v where v: "roundedPrice (Finite q) = Finite v" "fl (of_int K / 10000) = Finite v"
      "\<bar>v - ((H + L + C) / 3 - real i * (H - L))\<bar> \<le> 53 / 1000000"
    using rounded_err [OF q' b(5)] by blast
  have "price_lvl (supportLevel (pivotOf (Finite H) (Finite L) (Finite C))
                      (fsub (Finite H) (Finite L)) i) = Finite v"
  proof -
    have "fsub (Finite P') (Finite m) = Finite q"
      by (simp only: fsub_def fneg.simps q(1))
    then show ?thesis
      by (simp only: P'(1) R'(1) supportLevel_def PivotLevel.select_convs m(1) v(1))
  qed
  then show ?thesis using v(2,3) by blast
qed
subsection \<open>Evaluating the arithmetic\<close>

text \<open>
  Integers up to \<open>2^53\<close> are doubles. For other values, \<open>fl x\<close> is found by giving
  the exponent \<open>e\<close> of the last place and the significand \<open>m\<close>: \<open>x\<close> lies in the
  binade of \<open>e\<close> and \<open>m\<close> is the integer nearest to \<open>x / 2^e\<close> (the even one at a
  tie).
\<close>

lemma fl_numeral:
  "numeral n \<le> (2::nat) ^ 53 \<Longrightarrow> fl (numeral n) = Finite (numeral n)"
  using fl_of_nat [of "numeral n"] by simp

lemma fl_one: "fl 1 = Finite 1"
  using fl_of_nat [of 1] by simp

lemma example_levels:
  "resistanceLevel (pivotOf (Finite 110) (Finite 90) (Finite 100)) (fsub (Finite 110) (Finite 90)) 1
     = \<lparr>price_lvl = Finite 120, side_lvl = short, pivotType = ''R1''\<rparr>"
  "supportLevel (pivotOf (Finite 110) (Finite 90) (Finite 100)) (fsub (Finite 110) (Finite 90)) 1
     = \<lparr>price_lvl = Finite 80, side_lvl = long, pivotType = ''S1''\<rparr>"
  by (simp_all add: resistanceLevel_def supportLevel_def pivotOf_def fsub_def roundedPrice_def
      fl_numeral digitChar_def)

lemma pow2_mono: "a \<le> b \<Longrightarrow> pow2 a \<le> pow2 b"
  by (simp add: pow2_powi power_int_increasing)

lemma ilog2_unique:
  assumes "pow2 k \<le> a" "a < pow2 (k + 1)"
  shows "ilog2 a = k"
proof -
  have a: "0 < a" using assms(1) pow2_pos [of k] by linarith
  note b = ilog2_bounds [OF a]
  have "\<not> ilog2 a + 1 \<le> k"
  proof
    assume "ilog2 a + 1 \<le> k"
    then have "pow2 (ilog2 a + 1) \<le> pow2 k" by (rule pow2_mono)
    then show False using b assms(1) by linarith
  qed
  moreover have "\<not> k + 1 \<le> ilog2 a"
  proof
    assume "k + 1 \<le> ilog2 a"
    then have "pow2 (k + 1) \<le> pow2 (ilog2 a)" by (rule pow2_mono)
    then show False using b assms(2) by linarith
  qed
  ultimately show ?thesis by linarith
qed

lemma roundHalfEven_near:
  assumes "\<bar>q - of_int m\<bar> < 1 / 2"
  shows "roundHalfEven q = m"
proof -
  have "\<lfloor>q\<rfloor> = m \<and> q - of_int m < 1 / 2 \<or> \<lfloor>q\<rfloor> = m - 1 \<and> q - of_int (m - 1) > 1 / 2"
  proof (cases "of_int m \<le> q")
    case True
    then have "\<lfloor>q\<rfloor> = m" using assms by (intro floor_unique) auto
    then show ?thesis using assms by auto
  next
    case False
    then have "\<lfloor>q\<rfloor> = m - 1" using assms by (intro floor_unique) auto
    then show ?thesis using assms False by auto
  qed
  then show ?thesis by (auto simp: roundHalfEven_def Let_def)
qed

lemma fl_eval_pos:
  assumes "0 < x" "- 1074 \<le> e" "e \<le> 900" "pow2 (e + 52) \<le> x" "x < pow2 (e + 53)"
    "\<bar>x / pow2 e - of_int m\<bar> < 1 / 2" "v = of_int m * pow2 e"
  shows "fl x = Finite v"
proof -
  have "x < pow2 (e + 52 + 1)" using assms(5) by (simp add: add.commute add.left_commute)
  then have il: "ilog2 x = e + 52" using assms(1,4) by (intro ilog2_unique) simp_all
  have e: "max (ilog2 x - 52) (- 1074) = e" using il assms(2) by simp
  have r: "roundHalfEven (x / pow2 e) = m" using assms(6) by (rule roundHalfEven_near)
  have "x / pow2 e < pow2 53"
  proof -
    have "pow2 (e + 53) = pow2 e * pow2 53" by (rule pow2_add)
    then show ?thesis using assms(5) pow2_pos [of e] by (simp add: field_simps)
  qed
  then have "of_int m < pow2 53 + 1" using assms(6) by linarith
  then have "of_int m * pow2 e \<le> (pow2 53 + 1) * pow2 e"
    using pow2_pos [of e] by (intro mult_right_mono) simp_all
  also have "\<dots> \<le> (pow2 53 + 1) * pow2 900"
    using pow2_mono [OF assms(3)] pow2_pos [of 53] by (intro mult_left_mono) simp_all
  also have "\<dots> < 2 ^ 1024" by (simp add: pow2_def)
  finally have small: "\<not> (v \<ge> 2 ^ 1024)" using assms(7) by simp
  show ?thesis
    using assms(1) small by (simp add: fl_def Let_def e r assms(7))
qed

lemma roundHalfEven_tie:
  assumes "\<bar>q - of_int m\<bar> = 1 / 2" "even m"
  shows "roundHalfEven q = m"
proof (cases "of_int m \<le> q")
  case True
  then have q: "q = of_int m + 1 / 2" using assms(1) by linarith
  then have "\<lfloor>q\<rfloor> = m" by (intro floor_unique) auto
  then show ?thesis using q assms(2) by (simp add: roundHalfEven_def Let_def)
next
  case False
  then have q: "q = of_int (m - 1) + 1 / 2" using assms(1) by simp
  then have "\<lfloor>q\<rfloor> = m - 1" by (intro floor_unique) auto
  then show ?thesis using q assms(2) by (simp add: roundHalfEven_def Let_def)
qed

lemma fl_eval_tie:
  assumes "0 < x" "- 1074 \<le> e" "e \<le> 900" "pow2 (e + 52) \<le> x" "x < pow2 (e + 53)"
    "\<bar>x / pow2 e - of_int m\<bar> = 1 / 2" "even m" "v = of_int m * pow2 e"
  shows "fl x = Finite v"
proof -
  have "x < pow2 (e + 52 + 1)" using assms(5) by (simp add: add.commute add.left_commute)
  then have il: "ilog2 x = e + 52" using assms(1,4) by (intro ilog2_unique) simp_all
  have e: "max (ilog2 x - 52) (- 1074) = e" using il assms(2) by simp
  have r: "roundHalfEven (x / pow2 e) = m" using assms(6,7) by (rule roundHalfEven_tie)
  have "x / pow2 e < pow2 53"
  proof -
    have "pow2 (e + 53) = pow2 e * pow2 53" by (rule pow2_add)
    then show ?thesis using assms(5) pow2_pos [of e] by (simp add: field_simps)
  qed
  then have "of_int m < pow2 53 + 1" using assms(6) by linarith
  then have "of_int m * pow2 e \<le> (pow2 53 + 1) * pow2 e"
    using pow2_pos [of e] by (intro mult_right_mono) simp_all
  also have "\<dots> \<le> (pow2 53 + 1) * pow2 900"
    using pow2_mono [OF assms(3)] pow2_pos [of 53] by (intro mult_left_mono) simp_all
  also have "\<dots> < 2 ^ 1024" by (simp add: pow2_def)
  finally have small: "\<not> (v \<ge> 2 ^ 1024)" using assms(8) by simp
  show ?thesis
    using assms(1) small by (simp add: fl_def Let_def e r assms(8))
qed

lemma example_level_R2:
  "resistanceLevel (pivotOf (Finite 110) (Finite 90) (Finite 100)) (fsub (Finite 110) (Finite 90)) 2
     = \<lparr>price_lvl = Finite 140, side_lvl = short, pivotType = ''R2''\<rparr>"
  by (simp add: resistanceLevel_def pivotOf_def fsub_def roundedPrice_def fl_numeral digitChar_def)

subsection \<open>A level at a near-tie\<close>

text \<open>
  High 10.05816, low 9.65839 and close 9.98411 as doubles, and the first support
  level. The exact \<open>P - R\<close> of these doubles is just above 9.50045; the computed one,
  times 10000, is the double below 95004.5.
\<close>

lemma near_tie_high: "fl 10.05816 = Finite (707780087938013 / 70368744177664)"
  by (rule fl_eval_pos [where e = "-49" and m = 5662240703504104]) (simp_all add: pow2_def)

lemma near_tie_low: "fl 9.65839 = Finite (2718595100312433 / 281474976710656)"
  by (rule fl_eval_pos [where e = "-49" and m = 5437190200624866]) (simp_all add: pow2_def)

lemma near_tie_close: "fl 9.98411 = Finite (5620554259453255 / 562949953421312)"
  by (rule fl_eval_pos [where e = "-49" and m = 5620554259453255]) (simp_all add: pow2_def)

lemma near_tie_code: "fl 9.5004 = Finite (5348249737483833 / 562949953421312)"
  by (rule fl_eval_pos [where e = "-49" and m = 5348249737483833]) (simp_all add: pow2_def)

lemma near_tie_exact: "fl 9.5005 = Finite (5348306032479175 / 562949953421312)"
  by (rule fl_eval_pos [where e = "-49" and m = 5348306032479175]) (simp_all add: pow2_def)

lemma near_tie_pivot:
  "pivotOf (Finite (707780087938013 / 70368744177664)) (Finite (2718595100312433 / 281474976710656))
     (Finite (5620554259453255 / 562949953421312)) = Finite (5573328387860741 / 562949953421312)"
proof -
  have a: "fl (707780087938013 / 70368744177664 + 2718595100312433 / 281474976710656) = Finite (5549715452064485 / 281474976710656)"
    by (rule fl_eval_pos [where e = "-48" and m = 5549715452064485]) (simp_all add: pow2_def)
  have b: "fl (5549715452064485 / 281474976710656 + 5620554259453255 / 562949953421312) = Finite (1044999072723889 / 35184372088832)"
    by (rule fl_eval_tie [where e = "-48" and m = 8359992581791112]) (simp_all add: pow2_def)
  have c: "fl ((1044999072723889 / 35184372088832) / 3) = Finite (5573328387860741 / 562949953421312)"
    by (rule fl_eval_pos [where e = "-49" and m = 5573328387860741]) (simp_all add: pow2_def)
  have d: "(3::real) \<noteq> 0" by simp
  show ?thesis
    by (simp only: pivotOf_def fadd.simps fdiv.simps a b c d if_False)
qed

lemma near_tie_range:
  "fsub (Finite (707780087938013 / 70368744177664)) (Finite (2718595100312433 / 281474976710656)) = Finite (112525251439619 / 281474976710656)"
proof -
  have a: "fl (707780087938013 / 70368744177664 + - (2718595100312433 / 281474976710656)) = Finite (112525251439619 / 281474976710656)"
    by (rule fl_eval_pos [where e = "-54" and m = 7201616092135616]) (simp_all add: pow2_def)
  show ?thesis
    by (simp only: fsub_def fneg.simps fadd.simps a)
qed

lemma near_tie_price:
  "roundedPrice (fsub (Finite (5573328387860741 / 562949953421312))
     (fmul (Finite 1) (Finite (112525251439619 / 281474976710656)))) = Finite (5348249737483833 / 562949953421312)"
proof -
  have a: "fl (1 * (112525251439619 / 281474976710656)) = Finite (112525251439619 / 281474976710656)"
    by (rule fl_eval_pos [where e = "-54" and m = 7201616092135616]) (simp_all add: pow2_def)
  have b: "fl (5573328387860741 / 562949953421312 + - (112525251439619 / 281474976710656)) = Finite (5348277884981503 / 562949953421312)"
    by (rule fl_eval_pos [where e = "-49" and m = 5348277884981503]) (simp_all add: pow2_def)
  have c: "fl (5348277884981503 / 562949953421312 * 10000) = Finite (6528659527565311 / 68719476736)"
    by (rule fl_eval_pos [where e = "-36" and m = 6528659527565311]) (simp_all add: pow2_def)
  have k: "real_of_int \<lfloor>6528659527565311 / 68719476736 + 1 / (2::real)\<rfloor> = 95004"
    by simp
  have e: "fl (95004 / 10000) = Finite (5348249737483833 / 562949953421312)"
    by (rule fl_eval_pos [where e = "-49" and m = 5348249737483833]) (simp_all add: pow2_def)
  have f: "(10000::real) \<noteq> 0" by simp
  show ?thesis
    by (simp only: roundedPrice_def fsub_def fneg.simps fadd.simps fmul.simps jsRound.simps
        fdiv.simps a b c k e f if_False)
qed

section \<open>Level calculator: the level set\<close>

text \<open>
  C7 (as amended). For level counts that are not \<open>Infinity\<close> and whose integer parts
  add up to less than \<open>2^32\<close> (a \<open>NaN\<close>, negative or fractional count counting as the
  integer part of its positive part), \<open>calculatePivotLevels\<close> returns the resistance
  levels \<open>R1 .. Rn\<close> (short) followed by the support levels \<open>S1 .. Sm\<close> (long), level
  \<open>i\<close> priced \<open>Math.round(price * 10000) / 10000\<close> for \<open>price = pivot + i * range\<close> or
  \<open>pivot - i * range\<close>, \<open>pivot = (high + low + close) / 3\<close>, \<open>range = high - low\<close>, every
  operation in double arithmetic. With a resistance count of \<open>Infinity\<close> the call does
  not return. For a high, low and close of magnitude at most \<open>10^6\<close> and \<open>i\<close> up to 1000,
  each price is a double nearest to a multiple of 0.0001 and lies within 0.000053 of
  the exact \<open>P + i R\<close> or \<open>P - i R\<close>, \<open>P = (H + L + C) / 3\<close>, \<open>R = H - L\<close>. High 110,
  low 90 and close 100 with one level each way give \<open>R1\<close> = 120 (short) and \<open>S1\<close> = 80
  (long).
\<close>

theorem C7_pivot_levels:
  "(countsInRange r s \<longrightarrow>
      calculatePivotLevels H L C r s =
        Some (map (resistanceLevel (pivotOf H L C) (fsub H L)) [1..<Suc (levelCount r)]
              @ map (supportLevel (pivotOf H L C) (fsub H L)) [1..<Suc (levelCount s)]))
   \<and> calculatePivotLevels H L C PosInfinity s = None
   \<and> side_lvl (resistanceLevel P R i) = short
   \<and> pivotType (resistanceLevel P R i) = CHR ''R'' # showNat i
   \<and> side_lvl (supportLevel P R i) = long
   \<and> pivotType (supportLevel P R i) = CHR ''S'' # showNat i
   \<and> (\<bar>h\<bar> \<le> 1000000 \<longrightarrow> \<bar>l\<bar> \<le> 1000000 \<longrightarrow> \<bar>c\<bar> \<le> 1000000 \<longrightarrow> i \<le> 1000 \<longrightarrow>
        (\<exists>K v. price_lvl (resistanceLevel (pivotOf (Finite h) (Finite l) (Finite c))
                          (fsub (Finite h) (Finite l)) i) = Finite v
               \<and> fl (of_int K / 10000) = Finite v
               \<and> \<bar>v - ((h + l + c) / 3 + real i * (h - l))\<bar> \<le> 53 / 1000000)
        \<and> (\<exists>K v. price_lvl (supportLevel (pivotOf (Finite h) (Finite l) (Finite c))
                          (fsub (Finite h) (Finite l)) i) = Finite v
               \<and> fl (of_int K / 10000) = Finite v
               \<and> \<bar>v - ((h + l + c) / 3 - real i * (h - l))\<bar> \<le> 53 / 1000000))
   \<and> calculatePivotLevels (Finite 110) (Finite 90) (Finite 100) (Finite 1) (Finite 1) =
        Some [\<lparr>price_lvl = Finite 120, side_lvl = short, pivotType = ''R1''\<rparr>,
              \<lparr>price_lvl = Finite 80, side_lvl = long, pivotType = ''S1''\<rparr>]"
proof -
  have a: "countsInRange r s \<longrightarrow>
      calculatePivotLevels H L C r s =
        Some (map (resistanceLevel (pivotOf H L C) (fsub H L)) [1..<Suc (levelCount r)]
              @ map (supportLevel (pivotOf H L C) (fsub H L)) [1..<Suc (levelCount s)])"
    using calculatePivotLevels_eq by blast
  have b: "calculatePivotLevels H L C PosInfinity s = None"
    by (rule calculatePivotLevels_Infinity(1))
  have c: "side_lvl (resistanceLevel P R i) = short"
    "pivotType (resistanceLevel P R i) = CHR ''R'' # showNat i"
    "side_lvl (supportLevel P R i) = long"
    "pivotType (supportLevel P R i) = CHR ''S'' # showNat i"
    by (simp_all add: resistanceLevel_def supportLevel_def)
  have d: "countsInRange (Finite 1) (Finite 1)" by (simp add: countsInRange_def)
  have e: "calculatePivotLevels (Finite 110) (Finite 90) (Finite 100) (Finite 1) (Finite 1) =
        Some [\<lparr>price_lvl = Finite 120, side_lvl = short, pivotType = ''R1''\<rparr>,
              \<lparr>price_lvl = Finite 80, side_lvl = long, pivotType = ''S1''\<rparr>]"
  proof -
    have u: "[1..<Suc (levelCount (Finite 1))] = [1]" by (simp add: upt_rec)
    show ?thesis
      by (simp only: calculatePivotLevels_eq [OF d] u list.map append_Cons append_Nil
          example_levels)
  qed
  show ?thesis
    using a b c e resistance_price_err [of h l c i] support_price_err [of h l c i]
    by blast
qed

theorem C7_pivot_levels_witness:
  "countsInRange (Finite 2) (Finite 1)
   \<and> calculatePivotLevels (Finite 110) (Finite 90) (Finite 100) (Finite 2) (Finite 1) =
        Some [\<lparr>price_lvl = Finite 120, side_lvl = short, pivotType = ''R1''\<rparr>,
              \<lparr>price_lvl = Finite 140, side_lvl = short, pivotType = ''R2''\<rparr>,
              \<lparr>price_lvl = Finite 80, side_lvl = long, pivotType = ''S1''\<rparr>]
   \<and> \<bar>110 :: real\<bar> \<le> 1000000 \<and> \<bar>90 :: real\<bar> \<le> 1000000 \<and> \<bar>100 :: real\<bar> \<le> 1000000
   \<and> (2 :: nat) \<le> 1000
   \<and> (\<exists>K v. price_lvl (resistanceLevel (pivotOf (Finite 110) (Finite 90) (Finite 100))
                          (fsub (Finite 110) (Finite 90)) 2) = Finite v
               \<and> fl (of_int K / 10000) = Finite v
               \<and> \<bar>v - ((110 + 90 + 100) / 3 + real 2 * (110 - 90))\<bar> \<le> 53 / 1000000)"
proof -
  have a: "countsInRange (Finite 2) (Finite 1)" by (simp add: countsInRange_def)
  have b: "calculatePivotLevels (Finite 110) (Finite 90) (Finite 100) (Finite 2) (Finite 1) =
        Some (map (resistanceLevel (pivotOf (Finite 110) (Finite 90) (Finite 100))
                     (fsub (Finite 110) (Finite 90))) [1..<Suc (levelCount (Finite 2))]
              @ map (supportLevel (pivotOf (Finite 110) (Finite 90) (Finite 100))
                     (fsub (Finite 110) (Finite 90))) [1..<Suc (levelCount (Finite 1))])"
    using C7_pivot_levels [where r = "Finite 2" and s = "Finite 1" and H = "Finite 110"
        and L = "Finite 90" and C = "Finite 100"] a by blast
  have u: "[1..<Suc (levelCount (Finite 2))] = [1, 2]" "[1..<Suc (levelCount (Finite 1))] = [1]"
    by (simp_all add: upt_rec)
  have c: "\<exists>K v. price_lvl (resistanceLevel (pivotOf (Finite 110) (Finite 90) (Finite 100))
                          (fsub (Finite 110) (Finite 90)) 2) = Finite v
               \<and> fl (of_int K / 10000) = Finite v
               \<and> \<bar>v - ((110 + 90 + 100) / 3 + real 2 * (110 - 90))\<bar> \<le> 53 / 1000000"
    using C7_pivot_levels [where h = 110 and l = 90 and c = 100 and i = 2] by simp
  show ?thesis
    using a c by (simp only: b u list.map append_Cons append_Nil example_levels example_level_R2) simp
qed

text \<open>
  The price of a level is not always the exact \<open>P - i R\<close> rounded to 4 decimal places:
  for the doubles 10.05816, 9.65839, 9.98411 the exact value rounds to 9.5005 and the
  calculator returns the double 9.5004. And for a level count of \<open>Infinity\<close> the
  calculator returns no level set at all.
\<close>

theorem C7_pivot_levels_counterexample:
  "fl 10.05816 = Finite (707780087938013 / 70368744177664)
   \<and> fl 9.65839 = Finite (2718595100312433 / 281474976710656)
   \<and> fl 9.98411 = Finite (5620554259453255 / 562949953421312)
   \<and> calculatePivotLevels (Finite (707780087938013 / 70368744177664))
        (Finite (2718595100312433 / 281474976710656)) (Finite (5620554259453255 / 562949953421312))
        (Finite 0) (Finite 1)
      = Some [\<lparr>price_lvl = fl 9.5004, side_lvl = long, pivotType = ''S1''\<rparr>]
   \<and> specPivotLevels (707780087938013 / 70368744177664) (2718595100312433 / 281474976710656)
        (5620554259453255 / 562949953421312) 0 1 = [(9.5005, long)]
   \<and> fl 9.5004 \<noteq> fl 9.5005
   \<and> calculatePivotLevels (Finite 110) (Finite 90) (Finite 100) PosInfinity (Finite 1) = None"
proof -
  have d: "countsInRange (Finite 0) (Finite 1)" by (simp add: countsInRange_def)
  have u: "[1..<Suc (levelCount (Finite 0))] = []" "[1..<Suc (levelCount (Finite 1))] = [1]"
    by (simp_all add: upt_rec)
  have p: "supportLevel (Finite (5573328387860741 / 562949953421312)) (Finite (112525251439619 / 281474976710656)) 1
      = \<lparr>price_lvl = fl 9.5004, side_lvl = long, pivotType = ''S1''\<rparr>"
    by (simp only: supportLevel_def of_nat_1 near_tie_price near_tie_code) (simp add: digitChar_def)
  have a: "calculatePivotLevels (Finite (707780087938013 / 70368744177664))
        (Finite (2718595100312433 / 281474976710656)) (Finite (5620554259453255 / 562949953421312))
        (Finite 0) (Finite 1)
      = Some [\<lparr>price_lvl = fl 9.5004, side_lvl = long, pivotType = ''S1''\<rparr>]"
    by (simp only: calculatePivotLevels_eq [OF d] u near_tie_pivot near_tie_range list.map
        append_Nil p)
  have b: "specPivotLevels (707780087938013 / 70368744177664) (2718595100312433 / 281474976710656)
        (5620554259453255 / 562949953421312) 0 1 = [(9.5005, long)]"
    by (simp add: specPivotLevels_def roundTo4_def round_def upto.simps)
  have c: "fl 9.5004 \<noteq> fl 9.5005"
    by (simp only: near_tie_code near_tie_exact) simp
  show ?thesis
    using a b c near_tie_high near_tie_low near_tie_close calculatePivotLevels_Infinity(1)
    by blast
qed

end
